theory Spec2Isabelle
  imports Complex_Main "HOL-Library.Word" "HOL-Library.Multiset"
begin

unbundle bit_operations_syntax

section \<open>Machine types\<close>

type_synonym byte = "8 word"
type_synonym size_t = "64 word"

text \<open>The largest \<open>size_t\<close> value (\<open>max_size_t\<close>) and the 32-bit one, as naturals.\<close>

definition max_size_t :: nat where
  "max_size_t = 2 ^ 64 - 1"

definition max_uint32 :: nat where
  "max_uint32 = 2 ^ 32 - 1"

section \<open>Memory-mapped file (mmfile.cpp)\<close>

text \<open>
  The object holds the mapped address (\<open>m_data\<close>, where \<open>None\<close> is \<open>nullptr\<close>) and the
  mapped size (\<open>m_size\<close>); \<open>file_length\<close> is the length of the underlying file, which only
  \<open>ftruncate\<close> changes.  The two system calls of \<open>resize\<close> can fail; their outcomes are
  the environment \<open>sys\<close>: whether \<open>ftruncate\<close> succeeds, and the address \<open>mremap\<close> returns
  (\<open>None\<close> is \<open>MAP_FAILED\<close>).
\<close>

record mmfile =
  m_data :: "nat option"
  m_size :: size_t
  file_length :: size_t

record sys =
  ftruncate_ok :: bool
  mremap_result :: "nat option"

text \<open>\<open>mmfile::validate\<close>: a failed mapping clears the object.\<close>

definition validate :: "nat option \<Rightarrow> size_t \<Rightarrow> mmfile \<Rightarrow> bool \<times> mmfile" where
  "validate mapped sz m =
     (case mapped of
        None \<Rightarrow> (False, m\<lparr>m_data := None, m_size := 0\<rparr>)
      | Some a \<Rightarrow> (True, m\<lparr>m_data := Some a, m_size := sz\<rparr>))"

text \<open>\<open>mmfile::remap\<close> (the \<open>MREMAP_MAYMOVE\<close> build).\<close>

definition remap :: "sys \<Rightarrow> size_t \<Rightarrow> mmfile \<Rightarrow> bool \<times> mmfile" where
  "remap s new_size m = validate (mremap_result s) new_size m"

text \<open>\<open>mmfile::resize\<close>: truncate the underlying file, then readjust the map.\<close>

definition resize :: "sys \<Rightarrow> size_t \<Rightarrow> mmfile \<Rightarrow> bool \<times> mmfile" where
  "resize s new_size m =
     (if \<not> ftruncate_ok s then (False, m)
      else remap s new_size (m\<lparr>file_length := new_size\<rparr>))"

text \<open>
  \<open>mmfile::reserve\<close>: \<open>size * 3 / 2\<close> is \<open>size_t\<close> arithmetic, so the product wraps
  at \<open>2^64\<close> and the division truncates.
\<close>

definition reserve :: "sys \<Rightarrow> size_t \<Rightarrow> mmfile \<Rightarrow> bool \<times> mmfile" where
  "reserve s n m =
     (if n \<le> m_size m then (True, m)
      else (let new_size = n * 3 div 2 in resize s new_size m))"

text \<open>A mapped two-byte file and a system whose calls succeed.\<close>

definition small_file :: mmfile where
  "small_file = \<lparr>m_data = Some 4096, m_size = 2, file_length = 2\<rparr>"

definition sys_ok :: sys where
  "sys_ok = \<lparr>ftruncate_ok = True, mremap_result = Some 8192\<rparr>"

section \<open>Mapped memory and serialization\<close>

text \<open>
  The mapped file is a byte at every offset.  The unsafe serializer and deserializer of
  the base library write and read at an offset without bounds checks; integers are
  little-endian.
\<close>

type_synonym memory = "nat \<Rightarrow> byte"
type_synonym file_offset = "64 word"

definition read_bytes :: "memory \<Rightarrow> nat \<Rightarrow> nat \<Rightarrow> byte list" where
  "read_bytes m off n = map m [off..<off + n]"

definition write_bytes :: "memory \<Rightarrow> nat \<Rightarrow> byte list \<Rightarrow> memory" where
  "write_bytes m off bs =
     (\<lambda>a. if off \<le> a \<and> a < off + length bs then bs ! (a - off) else m a)"

text \<open>The \<open>n\<close> low bytes of \<open>v\<close>, least significant first, and the value of such bytes.\<close>

fun to_little_endian :: "nat \<Rightarrow> nat \<Rightarrow> byte list" where
  "to_little_endian 0 v = []"
| "to_little_endian (Suc n) v = word_of_nat (v mod 256) # to_little_endian n (v div 256)"

fun from_little_endian :: "byte list \<Rightarrow> nat" where
  "from_little_endian [] = 0"
| "from_little_endian (b # bs) = unat b + 256 * from_little_endian bs"

section \<open>Slab hash table (slab_hash_table.ipp)\<close>

text \<open>
  The table is its header, an array of bucket heads (\<open>slab_hash_table_header\<close>, each a
  \<open>file_offset\<close>), and its slab manager: the memory of the slabs, addressed by offsets
  from the start of the manager's region, and the payload size, the offset of the next
  free byte.  Keys are byte arrays of one fixed length per table.
\<close>

record slab_table =
  header :: "file_offset list"
  payload_size :: nat
  mem :: memory

text \<open>\<open>header_.empty\<close>, the end of a chain (also \<open>slab_hash_table::not_found\<close>).\<close>

definition slab_empty :: nat where
  "slab_empty = 0"

text \<open>
  Modelled from the spec: \<open>remainder\<close> (remainder.ipp), section 4.2: the bucket of a key
  is the key, read as a little-endian unsigned integer, modulo the number of buckets.
\<close>

definition remainder :: "byte list \<Rightarrow> nat \<Rightarrow> nat" where
  "remainder key buckets = from_little_endian key mod buckets"

text \<open>
  Modelled from the spec: \<open>slab_manager::new_slab\<close>, sections 3 and 4.2: it returns the
  current payload size as the offset of the new slab and advances the payload size by
  the requested bytes; allocation fails (\<open>None\<close>) when the file cannot hold the slab.
  The model lets the file grow to the largest \<open>size_t\<close>.
\<close>

definition new_slab :: "slab_table \<Rightarrow> nat \<Rightarrow> (nat \<times> slab_table) option" where
  "new_slab t sz =
     (if payload_size t + sz \<le> max_size_t
      then Some (payload_size t, t\<lparr>payload_size := payload_size t + sz\<rparr>)
      else None)"

text \<open>
  Modelled from the spec: the slab row \<open>[ key | next_offset:8 | payload_bytes ]\<close>
  (slab_row.ipp, section 3), with the operations of its sibling record_row.ipp:
  \<open>create\<close> allocates the row and writes the key and the value (the bytes \<open>v\<close> that the
  \<open>write\<close> callback produces), \<open>write_next_position\<close> (and \<open>link\<close>, which writes the same
  field) stores the next pointer, \<open>compare\<close> tests the stored key, \<open>next_position\<close> reads
  the next pointer, and the value starts \<open>prefix_size\<close> bytes into the row.
\<close>

definition prefix_size :: "byte list \<Rightarrow> nat" where
  "prefix_size key = length key + 8"

definition slab_create ::
  "slab_table \<Rightarrow> byte list \<Rightarrow> byte list \<Rightarrow> nat \<Rightarrow> (nat \<times> slab_table) option" where
  "slab_create t key v value_size =
     (case new_slab t (prefix_size key + value_size) of
        None \<Rightarrow> None
      | Some (position, t') \<Rightarrow>
          Some (position,
            t'\<lparr>mem := write_bytes (write_bytes (mem t') position key)
                        (position + prefix_size key) v\<rparr>))"

definition write_next_position :: "memory \<Rightarrow> nat \<Rightarrow> byte list \<Rightarrow> nat \<Rightarrow> memory" where
  "write_next_position m position key next =
     write_bytes m (position + length key) (to_little_endian 8 next)"

definition slab_compare :: "memory \<Rightarrow> nat \<Rightarrow> byte list \<Rightarrow> bool" where
  "slab_compare m position key = (read_bytes m position (length key) = key)"

definition next_position :: "memory \<Rightarrow> nat \<Rightarrow> byte list \<Rightarrow> nat" where
  "next_position m position key = from_little_endian (read_bytes m (position + length key) 8)"

text \<open>\<open>slab_hash_table::bucket_index\<close>, \<open>read_bucket_value\<close> and \<open>link\<close>.\<close>

definition bucket_index :: "slab_table \<Rightarrow> byte list \<Rightarrow> nat" where
  "bucket_index t key = remainder key (length (header t))"

definition read_bucket_value :: "slab_table \<Rightarrow> byte list \<Rightarrow> nat" where
  "read_bucket_value t key = unat (header t ! bucket_index t key)"

definition slab_link :: "slab_table \<Rightarrow> byte list \<Rightarrow> nat \<Rightarrow> slab_table" where
  "slab_link t key begin = t\<lparr>header := (header t)[bucket_index t key := word_of_nat begin]\<rparr>"

text \<open>
  \<open>slab_hash_table::store\<close>: the new row is created, linked to the current first row of
  the bucket, and made the first row.  The result is the offset of the value.
\<close>

definition slab_store ::
  "slab_table \<Rightarrow> byte list \<Rightarrow> byte list \<Rightarrow> nat \<Rightarrow> (nat \<times> slab_table) option" where
  "slab_store t key v value_size =
     (case slab_create t key v value_size of
        None \<Rightarrow> None
      | Some (position, t1) \<Rightarrow>
          (let t2 = t1\<lparr>mem := write_next_position (mem t1) position key
                                 (read_bucket_value t1 key)\<rparr>;
               t3 = slab_link t2 key position
           in Some (position + prefix_size key, t3)))"

text \<open>
  \<open>slab_hash_table::find\<close>: the walk along the chain.  The result is \<open>Some (Some a)\<close>
  for the address \<open>a\<close> of the value of the first row with the key, \<open>Some None\<close> for
  \<open>nullptr\<close>, and \<open>None\<close> when the walk does not end (a chain with a cycle).
\<close>

partial_function (option) find_loop :: "slab_table \<Rightarrow> byte list \<Rightarrow> nat \<Rightarrow> nat option option"
  where
  "find_loop t key current =
     (if current \<noteq> slab_empty then
        (if slab_compare (mem t) current key then Some (Some (current + prefix_size key))
         else find_loop t key (next_position (mem t) current key))
      else Some None)"

definition slab_find :: "slab_table \<Rightarrow> byte list \<Rightarrow> nat option option" where
  "slab_find t key = find_loop t key (read_bucket_value t key)"

text \<open>
  \<open>slab_hash_table::unlink\<close>: the first row is tested before the loop, whatever the
  bucket holds; a later row is unlinked from its predecessor.
\<close>

partial_function (option) unlink_loop ::
  "slab_table \<Rightarrow> byte list \<Rightarrow> nat \<Rightarrow> nat \<Rightarrow> (bool \<times> slab_table) option" where
  "unlink_loop t key previous current =
     (if current \<noteq> slab_empty then
        (if slab_compare (mem t) current key
         then Some (True, t\<lparr>mem := write_next_position (mem t) previous key
                                     (next_position (mem t) current key)\<rparr>)
         else unlink_loop t key current (next_position (mem t) current key))
      else Some (False, t))"

definition slab_unlink :: "slab_table \<Rightarrow> byte list \<Rightarrow> (bool \<times> slab_table) option" where
  "slab_unlink t key =
     (let begin = read_bucket_value t key
      in if slab_compare (mem t) begin key
         then Some (True, slab_link t key (next_position (mem t) begin key))
         else unlink_loop t key begin (next_position (mem t) begin key))"

text \<open>A created table of two buckets with no rows, and a two-byte key of bucket 1.\<close>

definition table0 :: slab_table where
  "table0 = \<lparr>header = [0, 0], payload_size = 8, mem = (\<lambda>a. 0)\<rparr>"

definition key1 :: "byte list" where
  "key1 = [1, 0]"

section \<open>Record hash table (record_hash_table.ipp, record_row.ipp)\<close>

text \<open>
  The record table has bucket heads of type \<open>array_index\<close> and a record manager: records
  of one fixed size, addressed by index, and the number of records allocated.
\<close>

type_synonym array_index = "32 word"

record record_table =
  r_header :: "array_index list"
  record_count :: nat
  record_size :: nat
  r_mem :: memory

text \<open>\<open>header_.empty\<close> of a record table (also \<open>record_hash_table::not_found\<close>).\<close>

definition record_empty :: nat where
  "record_empty = max_uint32"

text \<open>
  Modelled from the spec: \<open>record_manager::new_records(1)\<close> and \<open>record_manager::get\<close>,
  section 3: the new record's index is the current record count, which advances by one;
  valid indexes do not reach \<open>max_uint32\<close>, so allocation fails (\<open>None\<close>) there.  The
  address of record \<open>index\<close> is \<open>index * record_size\<close> from the start of the records.
\<close>

definition new_records :: "record_table \<Rightarrow> (nat \<times> record_table) option" where
  "new_records t =
     (if record_count t < max_uint32
      then Some (record_count t, t\<lparr>record_count := record_count t + 1\<rparr>)
      else None)"

text \<open>\<open>record_row::raw_data\<close>: the address \<open>offset\<close> bytes into the record.\<close>

definition raw_data :: "record_table \<Rightarrow> nat \<Rightarrow> nat \<Rightarrow> nat" where
  "raw_data t index off = index * record_size t + off"

definition record_prefix_size :: "byte list \<Rightarrow> nat" where
  "record_prefix_size key = length key + 4"

text \<open>\<open>record_row::create\<close>: allocate, write the key, skip the next index, write the value.\<close>

definition record_create ::
  "record_table \<Rightarrow> byte list \<Rightarrow> byte list \<Rightarrow> (nat \<times> record_table) option" where
  "record_create t key v =
     (case new_records t of
        None \<Rightarrow> None
      | Some (index, t') \<Rightarrow>
          Some (index,
            t'\<lparr>r_mem := write_bytes (write_bytes (r_mem t') (raw_data t' index 0) key)
                          (raw_data t' index 0 + length key + 4) v\<rparr>))"

text \<open>\<open>record_row::link\<close> and \<open>record_row::write_next_index\<close> write the same field.\<close>

definition row_link :: "record_table \<Rightarrow> nat \<Rightarrow> byte list \<Rightarrow> nat \<Rightarrow> record_table" where
  "row_link t index key next =
     t\<lparr>r_mem := write_bytes (r_mem t) (raw_data t index (length key))
                   (to_little_endian 4 next)\<rparr>"

definition write_next_index :: "record_table \<Rightarrow> nat \<Rightarrow> byte list \<Rightarrow> nat \<Rightarrow> record_table" where
  "write_next_index t index key next =
     t\<lparr>r_mem := write_bytes (r_mem t) (raw_data t index (length key))
                   (to_little_endian 4 next)\<rparr>"

text \<open>\<open>record_row::compare\<close>, \<open>data\<close> and \<open>next_index\<close>.\<close>

definition record_compare :: "record_table \<Rightarrow> nat \<Rightarrow> byte list \<Rightarrow> bool" where
  "record_compare t index key = (read_bytes (r_mem t) (raw_data t index 0) (length key) = key)"

definition record_data :: "record_table \<Rightarrow> nat \<Rightarrow> byte list \<Rightarrow> nat" where
  "record_data t index key = raw_data t index (record_prefix_size key)"

definition next_index :: "record_table \<Rightarrow> nat \<Rightarrow> byte list \<Rightarrow> nat" where
  "next_index t index key =
     from_little_endian (read_bytes (r_mem t) (raw_data t index (length key)) 4)"

text \<open>\<open>record_hash_table::bucket_index\<close>, \<open>read_bucket_value\<close> and \<open>link\<close>.\<close>

definition record_bucket_index :: "record_table \<Rightarrow> byte list \<Rightarrow> nat" where
  "record_bucket_index t key = remainder key (length (r_header t))"

definition record_read_bucket_value :: "record_table \<Rightarrow> byte list \<Rightarrow> nat" where
  "record_read_bucket_value t key = unat (r_header t ! record_bucket_index t key)"

definition record_link :: "record_table \<Rightarrow> byte list \<Rightarrow> nat \<Rightarrow> record_table" where
  "record_link t key begin =
     t\<lparr>r_header := (r_header t)[record_bucket_index t key := word_of_nat begin]\<rparr>"

text \<open>\<open>record_hash_table::store\<close>: the result is the index of the new record.\<close>

definition record_store ::
  "record_table \<Rightarrow> byte list \<Rightarrow> byte list \<Rightarrow> (nat \<times> record_table) option" where
  "record_store t key v =
     (case record_create t key v of
        None \<Rightarrow> None
      | Some (index, t1) \<Rightarrow>
          (let t2 = row_link t1 index key (record_read_bucket_value t1 key);
               t3 = record_link t2 key index
           in Some (index, t3)))"

text \<open>\<open>record_hash_table::find\<close>, with the results as for the slab table.\<close>

partial_function (option) record_find_loop ::
  "record_table \<Rightarrow> byte list \<Rightarrow> nat \<Rightarrow> nat option option" where
  "record_find_loop t key current =
     (if current \<noteq> record_empty then
        (if record_compare t current key then Some (Some (record_data t current key))
         else record_find_loop t key (next_index t current key))
      else Some None)"

definition record_find :: "record_table \<Rightarrow> byte list \<Rightarrow> nat option option" where
  "record_find t key = record_find_loop t key (record_read_bucket_value t key)"

text \<open>\<open>record_hash_table::unlink\<close>.\<close>

partial_function (option) record_unlink_loop ::
  "record_table \<Rightarrow> byte list \<Rightarrow> nat \<Rightarrow> nat \<Rightarrow> (bool \<times> record_table) option" where
  "record_unlink_loop t key previous current =
     (if current \<noteq> record_empty then
        (if record_compare t current key
         then Some (True, write_next_index t previous key (next_index t current key))
         else record_unlink_loop t key current (next_index t current key))
      else Some (False, t))"

definition record_unlink :: "record_table \<Rightarrow> byte list \<Rightarrow> (bool \<times> record_table) option" where
  "record_unlink t key =
     (let begin = record_read_bucket_value t key
      in if record_compare t begin key
         then Some (True, record_link t key (next_index t begin key))
         else record_unlink_loop t key begin (next_index t begin key))"

text \<open>A created record table of two buckets with eight-byte records and no record.\<close>

definition rtable0 :: record_table where
  "rtable0 = \<lparr>r_header = [4294967295, 4294967295], record_count = 0, record_size = 8,
     r_mem = (\<lambda>a. 0)\<rparr>"

section \<open>Coordinator (data_base.cpp): error codes\<close>

datatype code = success | operation_failed | empty_block | store_block_invalid_height
  | store_block_missing_parent | unspent_duplicate

section \<open>Coordinator: pushing the transactions of a block\<close>

text \<open>
  \<open>ceiling_add\<close> is the saturating \<open>size_t\<close> addition of the base library: the sum, or
  \<open>max_size_t\<close> when the sum would overflow.
\<close>

definition ceiling_add :: "nat \<Rightarrow> nat \<Rightarrow> nat" where
  "ceiling_add left right = (if max_size_t - left < right then max_size_t else left + right)"

text \<open>
  The loop of \<open>data_base::push_transactions\<close>.  The transaction database and the
  address indexes are a state \<open>'s\<close>; \<open>store s tx height position\<close> stands for
  \<open>transactions_->store(tx, height, position, state)\<close> followed, when it succeeds, by
  the three index pushes, and returns the outcome with the new state.  The loop leaves at
  the first failed store.  With \<open>buckets = 0\<close> the position never advances and the loop
  does not return, which is the value \<open>None\<close>.
\<close>

partial_function (option) push_loop ::
  "('s \<Rightarrow> 'tx \<Rightarrow> nat \<Rightarrow> nat \<Rightarrow> bool \<times> 's) \<Rightarrow> 'tx list \<Rightarrow> nat \<Rightarrow> nat \<Rightarrow> nat \<Rightarrow> 's
     \<Rightarrow> (bool \<times> 's) option" where
  "push_loop store txs height buckets position s =
     (if position < length txs then
        (let (stored, s') = store s (txs ! position) height position
         in if \<not> stored then Some (False, s')
            else push_loop store txs height buckets (ceiling_add position buckets) s')
      else Some (True, s))"

text \<open>
  \<open>data_base::push_transactions\<close>; a failed \<open>BITCOIN_ASSERT(bucket < buckets)\<close> is
  \<open>None\<close> as well.
\<close>

definition push_transactions ::
  "('s \<Rightarrow> 'tx \<Rightarrow> nat \<Rightarrow> nat \<Rightarrow> bool \<times> 's) \<Rightarrow> 'tx list \<Rightarrow> nat \<Rightarrow> nat \<Rightarrow> nat \<Rightarrow> 's
     \<Rightarrow> (bool \<times> 's) option" where
  "push_transactions store txs height bucket buckets s =
     (if bucket < buckets then push_loop store txs height buckets bucket s else None)"

text \<open>
  \<open>data_base::handle_do_push_transactions\<close>: on success of all buckets the block is
  stored and committed (\<open>block_store\<close> stands for \<open>blocks_->store\<close> and \<open>commit\<close>), then
  the caller's handler runs; on an error only the handler runs.
\<close>

definition handle_do_push_transactions ::
  "('s \<Rightarrow> nat \<Rightarrow> 's) \<Rightarrow> (code \<Rightarrow> 's \<Rightarrow> 's) \<Rightarrow> nat \<Rightarrow> code \<Rightarrow> 's \<Rightarrow> 's" where
  "handle_do_push_transactions block_store handler height ec s =
     (if ec \<noteq> success then handler ec s
      else handler success (block_store s height))"

text \<open>
  Modelled from the spec: the join gate \<open>synchronize\<close> of the base library (section 9:
  a join-gate that fires once \<open>n\<close> tasks complete).  The gate counts the completions
  reported to it; it calls the handler once, at the completion that reaches
  \<open>clearance_count\<close> or at the first error, and ignores every later call.
\<close>

definition synchronize ::
  "(code \<Rightarrow> 's \<Rightarrow> 's) \<Rightarrow> nat \<Rightarrow> code \<Rightarrow> nat \<times> 's \<Rightarrow> nat \<times> 's" where
  "synchronize handler clearance_count ec cs =
     (case cs of (counter, s) \<Rightarrow>
        if counter = clearance_count then (counter, s)
        else (let cnt = (if ec \<noteq> success then clearance_count else counter + 1)
              in if cnt = clearance_count then (cnt, handler ec s) else (cnt, s)))"

text \<open>\<open>data_base::do_push_transactions\<close>: one bucket's task, reporting to the gate.\<close>

definition do_push_transactions ::
  "('s \<Rightarrow> 'tx \<Rightarrow> nat \<Rightarrow> nat \<Rightarrow> bool \<times> 's) \<Rightarrow> 'tx list \<Rightarrow> nat \<Rightarrow> nat \<Rightarrow> nat \<Rightarrow>
     (code \<Rightarrow> nat \<times> 's \<Rightarrow> nat \<times> 's) \<Rightarrow> nat \<times> 's \<Rightarrow> (nat \<times> 's) option" where
  "do_push_transactions store txs height bucket buckets handler cs =
     (case push_transactions store txs height bucket buckets (snd cs) of
        None \<Rightarrow> None
      | Some (result, s') \<Rightarrow>
          Some (handler (if result then success else operation_failed) (fst cs, s')))"

text \<open>Tasks run one after the other; a task that does not return stops the run.\<close>

fun run_tasks :: "('a \<Rightarrow> 'a option) list \<Rightarrow> 'a \<Rightarrow> 'a option" where
  "run_tasks [] a = Some a"
| "run_tasks (t # ts) a = (case t a of None \<Rightarrow> None | Some a' \<Rightarrow> run_tasks ts a')"

text \<open>
  \<open>data_base::do_push\<close>.  \<open>verify\<close> stands for \<open>verify_push(block, height)\<close> and
  \<open>threads\<close> for \<open>dispatch.size()\<close>.  The source hands one task per bucket
  \<open>0, ..., buckets - 1\<close> to the thread pool; the model runs the tasks to completion one
  at a time, in the order \<open>order\<close> in which the pool completes them (any arrangement of
  the bucket numbers).  Interleaving inside a task is not modelled.
\<close>

definition do_push ::
  "('s \<Rightarrow> 'tx list \<Rightarrow> nat \<Rightarrow> code) \<Rightarrow> ('s \<Rightarrow> 'tx \<Rightarrow> nat \<Rightarrow> nat \<Rightarrow> bool \<times> 's) \<Rightarrow>
     ('s \<Rightarrow> nat \<Rightarrow> 's) \<Rightarrow> (code \<Rightarrow> 's \<Rightarrow> 's) \<Rightarrow> nat \<Rightarrow> nat list \<Rightarrow>
     'tx list \<Rightarrow> nat \<Rightarrow> 's \<Rightarrow> 's option" where
  "do_push verify store block_store handler threads order txs height s =
     (let block_complete = handle_do_push_transactions block_store handler height;
          ec = verify s txs height
      in if ec \<noteq> success then Some (block_complete ec s)
         else (let buckets = min threads (length txs);
                   join_handler = synchronize block_complete buckets
               in map_option snd
                    (run_tasks
                       (map (\<lambda>bucket. do_push_transactions store txs height bucket buckets
                          join_handler) order)
                       (0, s))))"

text \<open>
  To observe what a push does, the state is instantiated with the log of the writes:
  every transaction store, the block store and the final call of the handler append
  an event.
\<close>

datatype 'tx event = Tx_Store 'tx nat nat | Block_Store nat | Done code

definition log_store :: "'tx event list \<Rightarrow> 'tx \<Rightarrow> nat \<Rightarrow> nat \<Rightarrow> bool \<times> 'tx event list" where
  "log_store s tx height position = (True, s @ [Tx_Store tx height position])"

definition log_block :: "'tx event list \<Rightarrow> nat \<Rightarrow> 'tx event list" where
  "log_block s height = s @ [Block_Store height]"

definition log_done :: "code \<Rightarrow> 'tx event list \<Rightarrow> 'tx event list" where
  "log_done ec s = s @ [Done ec]"

text \<open>The positions below \<open>n\<close> of bucket \<open>bucket\<close> out of \<open>buckets\<close>, in increasing order.\<close>

definition bucket_positions :: "nat \<Rightarrow> nat \<Rightarrow> nat \<Rightarrow> nat list" where
  "bucket_positions bucket buckets n = filter (\<lambda>q. q mod buckets = bucket) [0..<n]"

definition stores :: "'tx list \<Rightarrow> nat \<Rightarrow> nat list \<Rightarrow> 'tx event list" where
  "stores txs height ps = map (\<lambda>q. Tx_Store (txs ! q) height q) ps"

text \<open>
  Storing the transactions at the positions \<open>ps\<close>, in this order, up to the first store
  that fails.
\<close>

fun store_each ::
  "('s \<Rightarrow> 'tx \<Rightarrow> nat \<Rightarrow> nat \<Rightarrow> bool \<times> 's) \<Rightarrow> 'tx list \<Rightarrow> nat \<Rightarrow> nat list \<Rightarrow> 's \<Rightarrow> bool \<times> 's"
  where
  "store_each store txs height [] s = (True, s)"
| "store_each store txs height (p # ps) s =
     (let (stored, s') = store s (txs ! p) height p
      in if \<not> stored then (False, s') else store_each store txs height ps s')"

text \<open>
  A store whose outcome is decided by \<open>ok\<close> from the log so far and the arguments of the
  call, to observe a push in which stores fail; the call is logged whatever its outcome.
\<close>

definition log_store_if ::
  "('tx event list \<Rightarrow> 'tx \<Rightarrow> nat \<Rightarrow> nat \<Rightarrow> bool) \<Rightarrow> 'tx event list \<Rightarrow> 'tx \<Rightarrow> nat \<Rightarrow> nat
     \<Rightarrow> bool \<times> 'tx event list" where
  "log_store_if ok s tx height position =
     (ok s tx height position, s @ [Tx_Store tx height position])"

text \<open>
  Every transaction store logged in the events \<open>es\<close>, which continue the log \<open>s\<close>,
  reported success.
\<close>

fun all_stored ::
  "('tx event list \<Rightarrow> 'tx \<Rightarrow> nat \<Rightarrow> nat \<Rightarrow> bool) \<Rightarrow> 'tx event list \<Rightarrow> 'tx event list \<Rightarrow> bool"
  where
  "all_stored ok s [] = True"
| "all_stored ok s (e # es) =
     ((case e of Tx_Store tx height position \<Rightarrow> ok s tx height position | _ \<Rightarrow> True) \<and>
      all_stored ok (s @ [e]) es)"

section \<open>Coordinator: popping the top block or header\<close>

text \<open>
  The block database and the flush-lock store are other components of the repository;
  \<open>pop\<close> uses them through these operations on the store state \<open>'d\<close>:
  \<open>top db block_index\<close> is \<open>blocks_->top(out_height, block_index)\<close> (\<open>None\<close> when it
  returns false), \<open>get_block\<close> is \<open>blocks_->get(height, block_index)\<close> with the header and
  the transactions rebuilt by \<open>to_transactions\<close>, \<open>pool_tx\<close> is \<open>transactions_->pool(tx)\<close>
  followed by the index pops, and \<open>begin_write\<close>, \<open>unconfirm\<close>, \<open>commit\<close>, \<open>end_write\<close>
  are the calls of those names.
\<close>

record ('d, 'h, 'tx) store_ops =
  top :: "'d \<Rightarrow> bool \<Rightarrow> nat option"
  get_block :: "'d \<Rightarrow> nat \<Rightarrow> bool \<Rightarrow> ('h \<times> 'tx list) option"
  begin_write :: "'d \<Rightarrow> bool \<times> 'd"
  pool_tx :: "'d \<Rightarrow> 'tx \<Rightarrow> bool \<times> 'd"
  unconfirm :: "'d \<Rightarrow> nat \<Rightarrow> bool \<Rightarrow> bool \<times> 'd"
  commit :: "'d \<Rightarrow> 'd"
  end_write :: "'d \<Rightarrow> bool \<times> 'd"

text \<open>\<open>data_base::verify_top\<close>.\<close>

definition verify_top :: "('d, 'h, 'tx) store_ops \<Rightarrow> 'd \<Rightarrow> nat \<Rightarrow> bool \<Rightarrow> code" where
  "verify_top ops db height block_index =
     (case top ops db block_index of
        Some actual_height \<Rightarrow> if actual_height = height then success else operation_failed
      | None \<Rightarrow> operation_failed)"

text \<open>The loop of \<open>data_base::pop_transactions\<close>, and the function with its assertion.\<close>

partial_function (option) pop_loop ::
  "('d \<Rightarrow> 'tx \<Rightarrow> bool \<times> 'd) \<Rightarrow> 'tx list \<Rightarrow> nat \<Rightarrow> nat \<Rightarrow> 'd \<Rightarrow> (bool \<times> 'd) option" where
  "pop_loop pool txs buckets position db =
     (if position < length txs then
        (let (pooled, db') = pool db (txs ! position)
         in if \<not> pooled then Some (False, db')
            else pop_loop pool txs buckets (ceiling_add position buckets) db')
      else Some (True, db))"

definition pop_transactions ::
  "('d \<Rightarrow> 'tx \<Rightarrow> bool \<times> 'd) \<Rightarrow> 'tx list \<Rightarrow> nat \<Rightarrow> nat \<Rightarrow> 'd \<Rightarrow> (bool \<times> 'd) option" where
  "pop_transactions pool txs bucket buckets db =
     (if bucket < buckets then pop_loop pool txs buckets bucket db else None)"

text \<open>
  The writes of both \<open>pop\<close> overloads, from \<open>begin_write\<close> on.  The result is the error
  code, whether the commit was reached, and the store; \<open>None\<close> when the transaction loop
  does not return.
\<close>

definition pop_write ::
  "('d, 'h, 'tx) store_ops \<Rightarrow> 'tx list \<Rightarrow> nat \<Rightarrow> bool \<Rightarrow> 'd \<Rightarrow> (code \<times> bool \<times> 'd) option" where
  "pop_write ops txs height block_index db =
     (case begin_write ops db of
        (False, db1) \<Rightarrow> Some (operation_failed, False, db1)
      | (True, db1) \<Rightarrow>
          (case pop_transactions (pool_tx ops) txs 0 1 db1 of
             None \<Rightarrow> None
           | Some (False, db2) \<Rightarrow> Some (operation_failed, False, db2)
           | Some (True, db2) \<Rightarrow>
               (case unconfirm ops db2 height block_index of
                  (False, db3) \<Rightarrow> Some (operation_failed, False, db3)
                | (True, db3) \<Rightarrow>
                    (case end_write ops (commit ops db3) of
                       (ended, db4) \<Rightarrow>
                         Some (if ended then success else operation_failed, True, db4)))))"

text \<open>
  \<open>data_base::pop(chain::block& out_block, size_t height)\<close>: the result is the code, the
  block assigned to \<open>out_block\<close> (if any) and the store.
\<close>

definition pop_block ::
  "('d, 'h, 'tx) store_ops \<Rightarrow> 'd \<Rightarrow> nat \<Rightarrow> (code \<times> ('h \<times> 'tx list) option \<times> 'd) option" where
  "pop_block ops db height =
     (let ec = verify_top ops db height True
      in if ec \<noteq> success then Some (ec, None, db)
         else (case get_block ops db height True of
                 None \<Rightarrow> Some (operation_failed, None, db)
               | Some out_block \<Rightarrow>
                   (case pop_write ops (snd out_block) height True db of
                      None \<Rightarrow> None
                    | Some (c, committed, db') \<Rightarrow> Some (c, Some out_block, db'))))"

text \<open>
  \<open>data_base::pop(chain::header& out_header, size_t height)\<close>: \<open>out_header\<close> is assigned
  only after the commit.
\<close>

definition pop_header ::
  "('d, 'h, 'tx) store_ops \<Rightarrow> 'd \<Rightarrow> nat \<Rightarrow> (code \<times> 'h option \<times> 'd) option" where
  "pop_header ops db height =
     (let ec = verify_top ops db height False
      in if ec \<noteq> success then Some (ec, None, db)
         else (case get_block ops db height False of
                 None \<Rightarrow> Some (operation_failed, None, db)
               | Some block \<Rightarrow>
                   (case pop_write ops (snd block) height False db of
                      None \<Rightarrow> None
                    | Some (c, committed, db') \<Rightarrow>
                        Some (c, if committed then Some (fst block) else None, db'))))"

text \<open>
  A small store for examples: the state is the height of the top of both indexes, every
  block is empty, and every write succeeds.
\<close>

definition chain_ops :: "(nat, unit, unit) store_ops" where
  "chain_ops =
     \<lparr>top = (\<lambda>db block_index. Some db),
      get_block = (\<lambda>db height block_index. Some ((), [])),
      begin_write = (\<lambda>db. (True, db)),
      pool_tx = (\<lambda>db tx. (True, db)),
      unconfirm = (\<lambda>db height block_index. (True, db - 1)),
      commit = (\<lambda>db. db),
      end_write = (\<lambda>db. (True, db))\<rparr>"

section \<open>Transaction database (transaction_database.cpp, transaction_result.cpp)\<close>

text \<open>
  The values of \<open>transaction_state\<close>.  A state is read from a stored byte, so it is a
  number here, and any byte value can occur.
\<close>

definition state_missing :: nat where "state_missing = 0"
definition state_invalid :: nat where "state_invalid = 1"
definition state_pooled :: nat where "state_pooled = 2"
definition state_indexed :: nat where "state_indexed = 3"
definition state_confirmed :: nat where "state_confirmed = 4"

text \<open>
  Constants of the base library and of \<open>transaction_result\<close>: the spender height of an
  unspent output, the forks value of an unverified transaction, the position of an
  unconfirmed one, the null hash, and \<open>slab_map::not_found\<close>.
\<close>

definition not_spent :: nat where
  "not_spent = max_uint32"

definition unverified :: nat where
  "unverified = 2 ^ 31"

definition unconfirmed :: nat where
  "unconfirmed = 2 ^ 16 - 1"

definition null_hash :: "byte list" where
  "null_hash = replicate 32 0"

definition slab_not_found :: nat where
  "slab_not_found = 0"

text \<open>
  An output point is a transaction hash and an output index; the null point
  (\<open>point::is_null\<close> of the base library: the null hash with the largest index) is the
  previous output of a coinbase input.
\<close>

record output_point =
  point_hash :: "byte list"
  point_index :: nat

definition is_null :: "output_point \<Rightarrow> bool" where
  "is_null point \<longleftrightarrow> point_index point = max_uint32 \<and> point_hash point = null_hash"

text \<open>
  A transaction, as far as the database looks at it: its hash, the previous outputs of
  its inputs, its store serialization (\<open>to_data\<close> without the wire flag, of
  \<open>serialized_size\<close> bytes), and \<open>validation.offset\<close>.
\<close>

record transaction =
  tx_hash :: "byte list"
  tx_inputs :: "output_point list"
  tx_data :: "byte list"
  tx_offset :: nat

text \<open>The metadata \<open>point.validation\<close> that \<open>get_output\<close> populates.\<close>

record 'o prevout =
  pv_spent :: bool
  pv_coinbase_height :: "nat option"
  pv_cache :: 'o
  pv_confirmed :: bool

text \<open>
  The database calls the base library and the unspent-output cache, which are
  parameters of the model.  For the outputs of the base library, of some type \<open>'o\<close>:
  \<open>output_factory m a\<close> is \<open>output::factory\<close> reading at address \<open>a\<close> (the output and the
  address after it), \<open>default_output\<close> is the default-constructed output,
  \<open>output_is_valid\<close> is \<open>is_valid\<close>, and \<open>output_spent o fork_height candidate\<close> is
  \<open>validation.spent\<close>.  For the unspent-output cache, of some type \<open>'c\<close>: \<open>cache_populate\<close>
  is \<open>populate\<close> (the populated metadata on a hit, \<open>None\<close> on a miss), \<open>cache_add\<close> is
  \<open>add\<close> and \<open>cache_remove\<close> is \<open>remove\<close>.
\<close>

record ('o, 'c) library =
  output_factory :: "memory \<Rightarrow> nat \<Rightarrow> 'o \<times> nat"
  default_output :: 'o
  output_is_valid :: "'o \<Rightarrow> bool"
  output_spent :: "'o \<Rightarrow> nat \<Rightarrow> bool \<Rightarrow> bool"
  cache_populate :: "'c \<Rightarrow> output_point \<Rightarrow> nat \<Rightarrow> 'o prevout option"
  cache_add :: "'c \<Rightarrow> transaction \<Rightarrow> nat \<Rightarrow> bool \<Rightarrow> 'c"
  cache_remove :: "'c \<Rightarrow> output_point \<Rightarrow> 'c"

text \<open>
  \<open>read_size_little_endian\<close> of the base library's deserializer: the variable-length
  integer at an address, with the address after it.
\<close>

definition read_size_little_endian :: "memory \<Rightarrow> nat \<Rightarrow> nat \<times> nat" where
  "read_size_little_endian m off =
     (let b = unat (m off)
      in if b < 253 then (b, off + 1)
         else if b = 253 then (from_little_endian (read_bytes m (off + 1) 2), off + 3)
         else if b = 254 then (from_little_endian (read_bytes m (off + 1) 4), off + 5)
         else (from_little_endian (read_bytes m (off + 1) 8), off + 9))"

definition metadata_size :: nat where
  "metadata_size = 4 + 2 + 1"

text \<open>The database: the hash table of the transactions and the unspent-output cache.\<close>

record 'c transaction_database =
  lookup :: slab_table
  cache :: 'c

text \<open>
  \<open>transaction_result\<close>: the slab address (\<open>None\<close> is \<open>nullptr\<close>, a result that converts
  to false) and the snapshot of hash, height, position and state.
\<close>

record transaction_result =
  slab :: "nat option"
  r_hash :: "byte list"
  r_height :: nat
  r_position :: nat
  r_state :: nat

definition no_result :: transaction_result where
  "no_result = \<lparr>slab = None, r_hash = null_hash, r_height = unverified,
     r_position = unconfirmed, r_state = state_missing\<rparr>"

text \<open>The three metadata values at the start of a record: height, position, state.\<close>

definition read_metadata :: "memory \<Rightarrow> nat \<Rightarrow> nat \<times> nat \<times> nat" where
  "read_metadata m a =
     (from_little_endian (read_bytes m a 4),
      from_little_endian (read_bytes m (a + 4) 2),
      unat (m (a + 6)))"

text \<open>\<open>transaction_database::get(hash)\<close>; \<open>None\<close> when \<open>find\<close> does not return.\<close>

definition tx_get :: "'c transaction_database \<Rightarrow> byte list \<Rightarrow> transaction_result option" where
  "tx_get db h =
     (case slab_find (lookup db) h of
        None \<Rightarrow> None
      | Some None \<Rightarrow> Some no_result
      | Some (Some a) \<Rightarrow>
          (case read_metadata (mem (lookup db)) a of
             (height, position, state) \<Rightarrow>
               Some \<lparr>slab = Some a, r_hash = h, r_height = height, r_position = position,
                 r_state = state\<rparr>))"

text \<open>
  The loops that skip \<open>n\<close> outputs: each step skips \<open>fixed\<close> bytes, reads the size of the
  script and skips the script.
\<close>

fun skip_outputs :: "nat \<Rightarrow> memory \<Rightarrow> nat \<Rightarrow> nat \<Rightarrow> nat" where
  "skip_outputs fixed m 0 off = off"
| "skip_outputs fixed m (Suc n) off =
     (case read_size_little_endian m (off + fixed) of
        (script_size, off') \<Rightarrow> skip_outputs fixed m n (off' + script_size))"

text \<open>
  \<open>transaction_result::output\<close>: the default output when the index is out of range; the
  loop skips \<open>indexed_size + height_size + value_size\<close> bytes and the script per output.
\<close>

definition result_output ::
  "('o, 'c) library \<Rightarrow> memory \<Rightarrow> transaction_result \<Rightarrow> nat \<Rightarrow> 'o" where
  "result_output lib m result index =
     (let tx_start = the (slab result) + metadata_size
      in case read_size_little_endian m tx_start of
           (outputs, off) \<Rightarrow>
             if index \<ge> outputs then default_output lib
             else fst (output_factory lib m (skip_outputs (1 + 4 + 8) m index off)))"

text \<open>
  \<open>transaction_result::is_spent\<close>: the loop over the outputs, which returns false at the
  first output that is not spent, and the function.
\<close>

fun all_spent :: "('o, 'c) library \<Rightarrow> memory \<Rightarrow> nat \<Rightarrow> bool \<Rightarrow> nat \<Rightarrow> nat \<Rightarrow> bool" where
  "all_spent lib m fork_height allow_indexed 0 off = True"
| "all_spent lib m fork_height allow_indexed (Suc n) off =
     (case output_factory lib m off of
        (output, off') \<Rightarrow>
          if \<not> output_spent lib output fork_height allow_indexed then False
          else all_spent lib m fork_height allow_indexed n off')"

definition is_spent ::
  "('o, 'c) library \<Rightarrow> memory \<Rightarrow> transaction_result \<Rightarrow> nat \<Rightarrow> bool" where
  "is_spent lib m result fork_height =
     (let allow_indexed = (fork_height \<noteq> max_size_t);
          confirmed = (r_state result = state_indexed \<and> allow_indexed) \<or>
            (r_state result = state_confirmed \<and> r_height result \<le> fork_height)
      in if \<not> confirmed then False
         else (let tx_start = the (slab result) + metadata_size
               in case read_size_little_endian m tx_start of
                    (outputs, off) \<Rightarrow> all_spent lib m fork_height allow_indexed outputs off))"

text \<open>
  \<open>transaction_database::get_output\<close>.  \<open>confirmed_at\<close> is its local \<open>confirmed\<close>, with
  \<open>require_confirmed\<close> written out; \<open>get_output_found\<close> is the function from the result
  of \<open>get\<close> on, and \<open>get_output\<close> the whole.  The result is the returned flag and the
  metadata of the point; \<open>None\<close> when \<open>find\<close> does not return.
\<close>

definition confirmed_at :: "nat \<Rightarrow> nat \<Rightarrow> nat \<Rightarrow> bool" where
  "confirmed_at state height fork_height \<longleftrightarrow>
     (state = state_indexed \<and> fork_height \<noteq> max_size_t) \<or>
     (state = state_confirmed \<and> height \<le> fork_height)"

definition get_output_found ::
  "('o, 'c) library \<Rightarrow> memory \<Rightarrow> transaction_result \<Rightarrow> output_point \<Rightarrow> 'o prevout \<Rightarrow> nat \<Rightarrow>
     bool \<times> 'o prevout" where
  "get_output_found lib m result point prevout fork_height =
     (let height = r_height result;
          state = r_state result;
          require_confirmed = (fork_height \<noteq> max_size_t);
          confirmed = confirmed_at state height fork_height;
          output = result_output lib m result (point_index point);
          is_confirmed = (state = state_indexed \<or> state = state_confirmed)
      in if slab result = None then (False, prevout)
         else if height = 0 then (False, prevout)
         else if require_confirmed \<and> \<not> confirmed then (False, prevout)
         else if \<not> output_is_valid lib output then (False, prevout\<lparr>pv_cache := output\<rparr>)
         else (True,
           prevout\<lparr>pv_cache := output,
             pv_confirmed := is_confirmed,
             pv_spent := is_confirmed \<and> output_spent lib output fork_height require_confirmed,
             pv_coinbase_height := (if r_position result = 0 then Some height else None)\<rparr>))"

definition get_output ::
  "('o, 'c) library \<Rightarrow> 'c transaction_database \<Rightarrow> output_point \<Rightarrow> 'o prevout \<Rightarrow> nat \<Rightarrow>
     (bool \<times> 'o prevout) option" where
  "get_output lib db point prevout0 fork_height =
     (let prevout = prevout0\<lparr>pv_spent := False, pv_coinbase_height := None\<rparr>
      in if is_null point then Some (False, prevout)
         else (case cache_populate lib (cache db) point fork_height of
                 Some populated \<Rightarrow> Some (True, populated)
               | None \<Rightarrow>
                   (case tx_get db (point_hash point) of
                      None \<Rightarrow> None
                    | Some result \<Rightarrow>
                        Some (get_output_found lib (mem (lookup db)) result point prevout
                          fork_height))))"

text \<open>
  \<open>transaction_database::spend\<close>: the loop skips \<open>spender_height_size +
  output_value_size\<close> bytes and the script per output, and the four low bytes of the
  spender height are written at the address reached.
\<close>

definition spend ::
  "('o, 'c) library \<Rightarrow> 'c transaction_database \<Rightarrow> output_point \<Rightarrow> nat \<Rightarrow>
     (bool \<times> 'c transaction_database) option" where
  "spend lib db point spender_height =
     (if is_null point then Some (True, db)
      else (let db1 = (if spender_height \<noteq> not_spent
                       then db\<lparr>cache := cache_remove lib (cache db) point\<rparr> else db)
            in case slab_find (lookup db1) (point_hash point) of
                 None \<Rightarrow> None
               | Some None \<Rightarrow> Some (False, db1)
               | Some (Some a) \<Rightarrow>
                   (case read_metadata (mem (lookup db1)) a of
                      (height, position, state) \<Rightarrow>
                        if state \<noteq> state_confirmed \<or> height > spender_height
                        then Some (False, db1)
                        else (case read_size_little_endian (mem (lookup db1)) (a + metadata_size) of
                                (outputs, off) \<Rightarrow>
                                  if point_index point \<ge> outputs then Some (False, db1)
                                  else (let target = skip_outputs (4 + 8) (mem (lookup db1))
                                                       (point_index point) off;
                                            m' = write_bytes (mem (lookup db1)) target
                                                   (to_little_endian 4 spender_height)
                                        in Some (True,
                                             db1\<lparr>lookup := (lookup db1)\<lparr>mem := m'\<rparr>\<rparr>))))))"

text \<open>
  Modelled from the spec: \<open>slab_manager::get\<close>, section 3: the address of an offset
  inside the payload, \<open>nullptr\<close> otherwise.
\<close>

definition manager_get :: "slab_table \<Rightarrow> nat \<Rightarrow> nat option" where
  "manager_get t position = (if position < payload_size t then Some position else None)"

text \<open>\<open>transaction_database::confirm\<close>: rewrite the three metadata values.\<close>

definition confirm ::
  "'c transaction_database \<Rightarrow> nat \<Rightarrow> nat \<Rightarrow> nat \<Rightarrow> nat \<Rightarrow> bool \<times> 'c transaction_database" where
  "confirm db offset height position state =
     (case manager_get (lookup db) offset of
        None \<Rightarrow> (False, db)
      | Some a \<Rightarrow>
          (True, db\<lparr>lookup := (lookup db)\<lparr>mem :=
             write_bytes (mem (lookup db)) a
               (to_little_endian 4 height @ to_little_endian 2 position @
                to_little_endian 1 state)\<rparr>\<rparr>))"

text \<open>
  \<open>transaction_database::store\<close>, whose loop over the inputs is \<open>spend_all\<close>, and
  \<open>transaction_database::pool\<close> (\<open>tx_pool\<close>).  The result of \<open>tx_store\<close> carries the transaction
  with its new \<open>validation.offset\<close>.
\<close>

fun spend_all ::
  "('o, 'c) library \<Rightarrow> 'c transaction_database \<Rightarrow> output_point list \<Rightarrow> nat \<Rightarrow>
     (bool \<times> 'c transaction_database) option" where
  "spend_all lib db [] spender_height = Some (True, db)"
| "spend_all lib db (point # points) spender_height =
     (case spend lib db point spender_height of
        None \<Rightarrow> None
      | Some (False, db') \<Rightarrow> Some (False, db')
      | Some (True, db') \<Rightarrow> spend_all lib db' points spender_height)"

definition tx_store ::
  "('o, 'c) library \<Rightarrow> 'c transaction_database \<Rightarrow> transaction \<Rightarrow> nat \<Rightarrow> nat \<Rightarrow> nat \<Rightarrow>
     (bool \<times> transaction \<times> 'c transaction_database) option" where
  "tx_store lib db tx height position state =
     (let confirming = (state = state_confirmed);
          write_new = (\<lambda>db0.
            case slab_store (lookup db0) (tx_hash tx)
                   (to_little_endian 4 height @ to_little_endian 2 position @
                    to_little_endian 1 state @ tx_data tx)
                   (metadata_size + length (tx_data tx)) of
              None \<Rightarrow> None
            | Some (offset, t') \<Rightarrow>
                Some (True, tx\<lparr>tx_offset := offset\<rparr>,
                  db0\<lparr>lookup := t', cache := cache_add lib (cache db0) (tx\<lparr>tx_offset := offset\<rparr>)
                    height confirming\<rparr>))
      in if confirming then
           (case spend_all lib db (tx_inputs tx) height of
              None \<Rightarrow> None
            | Some (False, db1) \<Rightarrow> Some (False, tx, db1)
            | Some (True, db1) \<Rightarrow>
                if tx_offset tx \<noteq> slab_not_found then
                  (let db2 = db1\<lparr>cache := cache_add lib (cache db1) tx height confirming\<rparr>
                   in case confirm db2 (tx_offset tx) height position state of
                        (confirmed, db3) \<Rightarrow> Some (confirmed, tx, db3))
                else write_new db1)
         else write_new db)"

definition tx_pool ::
  "('o, 'c) library \<Rightarrow> 'c transaction_database \<Rightarrow> transaction \<Rightarrow>
     (bool \<times> 'c transaction_database) option" where
  "tx_pool lib db tx =
     (case spend_all lib db (tx_inputs tx) not_spent of
        None \<Rightarrow> None
      | Some (False, db1) \<Rightarrow> Some (False, db1)
      | Some (True, db1) \<Rightarrow>
          Some (confirm db1 (tx_offset tx) unverified unconfirmed state_pooled))"

section \<open>Coordinator: pushing a transaction\<close>

text \<open>\<open>data_base::verify_push(const transaction&)\<close>, with the default fork height.\<close>

definition verify_push_tx ::
  "('o, 'c) library \<Rightarrow> 'c transaction_database \<Rightarrow> transaction \<Rightarrow> code option" where
  "verify_push_tx lib db tx =
     (case tx_get db (tx_hash tx) of
        None \<Rightarrow> None
      | Some result \<Rightarrow>
          if slab result \<noteq> None \<and> \<not> is_spent lib (mem (lookup db)) result max_size_t
          then Some unspent_duplicate
          else Some success)"

text \<open>
  Modelled from the spec: \<open>begin_write\<close> and \<open>end_write\<close> of the store (section 4.6):
  \<open>begin_write\<close> creates the flush-lock sentinel and \<open>end_write\<close> deletes it; each can
  fail, which is the environment \<open>filesystem\<close>.  \<open>commit\<close> changes nothing that the model
  holds.
\<close>

record 'c data_base =
  transactions :: "'c transaction_database"
  flush_lock :: bool

record filesystem =
  begin_write_ok :: bool
  end_write_ok :: bool

text \<open>\<open>data_base::push(const transaction& tx, uint32_t forks)\<close>.\<close>

definition push_tx ::
  "('o, 'c) library \<Rightarrow> filesystem \<Rightarrow> 'c data_base \<Rightarrow> transaction \<Rightarrow> nat \<Rightarrow>
     (code \<times> 'c data_base) option" where
  "push_tx lib fs db tx forks =
     (case verify_push_tx lib (transactions db) tx of
        None \<Rightarrow> None
      | Some ec \<Rightarrow>
          if ec \<noteq> success then Some (ec, db)
          else if \<not> begin_write_ok fs then Some (operation_failed, db)
          else (let db1 = db\<lparr>flush_lock := True\<rparr>
                in case tx_store lib (transactions db1) tx forks unconfirmed state_pooled of
                     None \<Rightarrow> None
                   | Some (stored, tx', txs') \<Rightarrow>
                       (let db2 = db1\<lparr>transactions := txs'\<rparr>
                        in if end_write_ok fs then Some (success, db2\<lparr>flush_lock := False\<rparr>)
                           else Some (operation_failed, db2))))"

section \<open>Chains and example stores\<close>


text \<open>
  An instance of the library for examples: an output is stored as spender height (4
  bytes), value (8 bytes) and script (with its size), as \<open>spend\<close> skips it; an output is
  valid unless its value is the largest, and spent at a fork height when its spender
  height is set and not above the fork height; the cache is a map from points to the
  metadata it populates, and \<open>add\<close> leaves it as it is.
\<close>

record chain_output =
  out_spender_height :: nat
  out_value :: nat
  out_script :: "byte list"

type_synonym output_cache = "byte list \<times> nat \<Rightarrow> chain_output prevout option"

definition lib0 :: "(chain_output, output_cache) library" where
  "lib0 =
     \<lparr>output_factory = (\<lambda>m off.
        case read_size_little_endian m (off + 12) of
          (script_size, off') \<Rightarrow>
            (\<lparr>out_spender_height = from_little_endian (read_bytes m off 4),
              out_value = from_little_endian (read_bytes m (off + 4) 8),
              out_script = read_bytes m off' script_size\<rparr>, off' + script_size)),
      default_output = \<lparr>out_spender_height = not_spent, out_value = 2 ^ 64 - 1, out_script = []\<rparr>,
      output_is_valid = (\<lambda>output. out_value output \<noteq> 2 ^ 64 - 1),
      output_spent = (\<lambda>output fork_height candidate.
        out_spender_height output \<noteq> not_spent \<and> out_spender_height output \<le> fork_height),
      cache_populate = (\<lambda>c point fork_height. c (point_hash point, point_index point)),
      cache_add = (\<lambda>c tx height confirmed. c),
      cache_remove = (\<lambda>c point. c((point_hash point, point_index point) := None))\<rparr>"

text \<open>
  Example stores: a table of one bucket holding one transaction record under the hash
  \<open>hash1\<close>.  \<open>record1\<close> is confirmed at height 1, position 0, with an unspent output and
  an output spent at height 5; \<open>record2\<close> is indexed, with forks 1 and one unspent
  output; \<open>record3\<close> is the genesis coinbase: confirmed at height 0, position 0, one
  unspent output.
\<close>

definition tx_table0 :: slab_table where
  "tx_table0 = \<lparr>header = [0], payload_size = 8, mem = (\<lambda>a. 0)\<rparr>"

definition hash1 :: "byte list" where
  "hash1 = replicate 32 1"

definition record1 :: "byte list" where
  "record1 = [1, 0, 0, 0,  0, 0,  4,  2,
     255, 255, 255, 255,  50, 0, 0, 0, 0, 0, 0, 0,  2, 170, 187,
     5, 0, 0, 0,  25, 0, 0, 0, 0, 0, 0, 0,  0]"

definition table_with :: "byte list \<Rightarrow> slab_table" where
  "table_with rec = snd (the (slab_store tx_table0 hash1 rec (length rec)))"

definition db_with :: "byte list \<Rightarrow> output_cache \<Rightarrow> output_cache transaction_database" where
  "db_with rec c = \<lparr>lookup = table_with rec, cache = c\<rparr>"

definition no_cache :: output_cache where
  "no_cache = (\<lambda>point. None)"

definition record2 :: "byte list" where
  "record2 = [1, 0, 0, 0,  255, 255,  3,  1,
     255, 255, 255, 255,  50, 0, 0, 0, 0, 0, 0, 0,  0]"

definition record3 :: "byte list" where
  "record3 = [0, 0, 0, 0,  0, 0,  4,  1,
     255, 255, 255, 255,  50, 0, 0, 0, 0, 0, 0, 0,  0]"

definition output50 :: chain_output where
  "output50 = \<lparr>out_spender_height = not_spent, out_value = 50, out_script = []\<rparr>"

definition pv0 :: "chain_output prevout" where
  "pv0 = \<lparr>pv_spent = False, pv_coinbase_height = None,
     pv_cache = \<lparr>out_spender_height = not_spent, out_value = 2 ^ 64 - 1, out_script = []\<rparr>,
     pv_confirmed = False\<rparr>"

definition genesis_cache :: output_cache where
  "genesis_cache = (\<lambda>point. if point = (hash1, 0)
     then Some \<lparr>pv_spent = False, pv_coinbase_height = Some 0, pv_cache = output50,
       pv_confirmed = True\<rparr>
     else None)"

definition point0 :: output_point where
  "point0 = \<lparr>point_hash = hash1, point_index = 0\<rparr>"

definition point1 :: output_point where
  "point1 = \<lparr>point_hash = hash1, point_index = 1\<rparr>"

definition null_point :: output_point where
  "null_point = \<lparr>point_hash = null_hash, point_index = max_uint32\<rparr>"

definition tx1 :: transaction where
  "tx1 = \<lparr>tx_hash = hash1, tx_inputs = [], tx_data = [], tx_offset = 0\<rparr>"

definition fs_ok :: filesystem where
  "fs_ok = \<lparr>begin_write_ok = True, end_write_ok = True\<rparr>"

section \<open>Properties of the memory-mapped file\<close>

lemma reserve_within:
  "n \<le> m_size m \<Longrightarrow> reserve s n m = (True, m)"
  by (simp add: reserve_def)

lemma reserve_grow_length:
  "\<not> n \<le> m_size m \<Longrightarrow> ftruncate_ok s \<Longrightarrow>
     file_length (snd (reserve s n m)) = n * 3 div 2"
  by (simp add: reserve_def resize_def remap_def validate_def Let_def split: option.split)

lemma unat_three_halves:
  fixes n :: size_t
  assumes "unat n * 3 < 2 ^ 64"
  shows "unat (n * 3 div 2) = unat n * 3 div 2"
proof -
  have "unat (n * 3) = unat n * 3"
    using assms by (simp add: unat_word_ariths)
  then show ?thesis
    by (simp add: unat_div)
qed

text \<open>
  C8 (as stated): a request above the current size resizes the file to
  \<open>ceil(n * 3 / 2)\<close>.  At \<open>n = 3\<close> on a two-byte file the file is truncated to 4 bytes,
  not to \<open>ceil(4.5) = 5\<close>.
\<close>

theorem reserve_ceiling_counterexample:
  "\<not> int (unat (file_length (snd (reserve sys_ok 3 small_file)))) = \<lceil>(3::real) * 3 / 2\<rceil>"
proof -
  have "file_length (snd (reserve sys_ok 3 small_file)) = 4"
    by (simp add: reserve_def resize_def remap_def validate_def Let_def small_file_def
        sys_ok_def)
  moreover have "\<lceil>(3::real) * 3 / 2\<rceil> = 5"
    by (simp add: ceiling_eq_iff)
  ultimately show ?thesis by simp
qed

text \<open>
  C8 (amended): a request within the current size returns true and leaves the object
  and the file as they are; a larger request truncates the underlying file, when
  \<open>ftruncate\<close> succeeds, to \<open>n * 3 / 2\<close> in \<open>size_t\<close> arithmetic: the quotient rounded
  down, \<open>floor(n * 3 / 2)\<close> whenever the product does not wrap.
\<close>

theorem reserve_growth:
  "(n \<le> m_size m \<longrightarrow> reserve s n m = (True, m)) \<and>
   (\<not> n \<le> m_size m \<and> ftruncate_ok s \<longrightarrow>
      file_length (snd (reserve s n m)) = n * 3 div 2 \<and>
      (unat n * 3 < 2 ^ 64 \<longrightarrow>
         unat (file_length (snd (reserve s n m))) = unat n * 3 div 2))"
  using reserve_within [of n m s] reserve_grow_length [of n m s]
    unat_three_halves [of n]
  by simp

theorem reserve_growth_witness:
  "(2::size_t) \<le> m_size small_file \<and> reserve sys_ok 2 small_file = (True, small_file) \<and>
   \<not> (3::size_t) \<le> m_size small_file \<and> ftruncate_ok sys_ok \<and>
   unat (3::size_t) * 3 < 2 ^ 64 \<and>
   file_length (snd (reserve sys_ok 3 small_file)) = 3 * 3 div 2 \<and>
   unat (file_length (snd (reserve sys_ok 3 small_file))) = 4"
  using reserve_growth [of 2 small_file sys_ok] reserve_growth [of 3 small_file sys_ok]
  by (simp add: small_file_def sys_ok_def)

section \<open>Properties of the block push\<close>

lemma between_mod:
  fixes p q B :: nat
  assumes "p < q" "q < p + B"
  shows "q mod B \<noteq> p mod B"
proof
  assume "q mod B = p mod B"
  then have "B dvd q - p"
    using assms(1) by (simp add: mod_eq_dvd_iff_nat)
  moreover have "0 < q - p" "q - p < B"
    using assms by simp_all
  ultimately show False
    using nat_dvd_not_less by blast
qed

lemma filter_gap:
  assumes "p mod B = b"
  shows "filter (\<lambda>q. q mod B = b) [Suc p..<min n (p + B)] = []"
proof -
  have "q mod B \<noteq> b" if "q \<in> set [Suc p..<min n (p + B)]" for q
    using that assms between_mod [of p q B] by auto
  then show ?thesis
    by (simp add: filter_empty_conv)
qed

lemma filter_step:
  assumes "p mod B = b" "p < n" "0 < B"
  shows "filter (\<lambda>q. q mod B = b) [p..<n] = p # filter (\<lambda>q. q mod B = b) [p + B..<n]"
proof -
  have "Suc p \<le> min n (p + B)" "min n (p + B) \<le> n"
    using assms(2,3) by simp_all
  then have "[Suc p..<n] = [Suc p..<min n (p + B)] @ [min n (p + B)..<n]"
    using upt_add_eq_append [of "Suc p" "min n (p + B)" "n - min n (p + B)"] by simp
  then have split: "[p..<n] = p # [Suc p..<min n (p + B)] @ [min n (p + B)..<n]"
    using assms(2) by (simp add: upt_conv_Cons)
  have tail: "[min n (p + B)..<n] = [p + B..<n]"
    by (simp add: min_def)
  show ?thesis
    using assms(1) filter_gap [OF assms(1), of n]
    by (subst split) (simp add: tail)
qed

lemma push_loop_each:
  assumes "p mod B = b" "0 < B" "length txs \<le> max_size_t"
  shows "push_loop store txs h B p s =
     Some (store_each store txs h (filter (\<lambda>q. q mod B = b) [p..<length txs]) s)"
  using assms
proof (induction "length txs - p" arbitrary: p s rule: less_induct)
  case less
  show ?case
  proof (cases "p < length txs")
    case False
    then show ?thesis by (subst push_loop.simps) simp
  next
    case True
    note step = filter_step [OF less.prems(1) True less.prems(2)]
    obtain stored s' where st: "store s (txs ! p) h p = (stored, s')"
      by (cases "store s (txs ! p) h p")
    show ?thesis
    proof (cases stored)
      case False
      then show ?thesis
        using True st step by (subst push_loop.simps) simp
    next
      case stored: True
      show ?thesis
      proof (cases "max_size_t - p < B")
        case over: True
        then have "length txs \<le> p + B" using less.prems by simp
        then have e: "filter (\<lambda>q. q mod B = b) [p + B..<length txs] = []" by simp
        have "push_loop store txs h B max_size_t s' = Some (True, s')"
          using less.prems(3) by (subst push_loop.simps) simp
        then show ?thesis
          using True over st stored step e
          by (subst push_loop.simps) (simp add: ceiling_add_def)
      next
        case False
        have *: "ceiling_add p B = p + B" using False by (simp add: ceiling_add_def)
        have "(p + B) mod B = b" using less.prems by simp
        moreover have "length txs - (p + B) < length txs - p" using True less.prems by simp
        ultimately have IH: "push_loop store txs h B (p + B) s' =
           Some (store_each store txs h (filter (\<lambda>q. q mod B = b) [p + B..<length txs]) s')"
          using less.hyps [of "p + B" s'] less.prems by simp
        show ?thesis
          using True st stored step by (subst push_loop.simps) (simp add: * IH)
      qed
    qed
  qed
qed

lemma filter_prefix:
  assumes "b < B"
  shows "filter (\<lambda>q. q mod B = b) [0..<n] = filter (\<lambda>q. q mod B = b) [b..<n]"
proof (cases "b \<le> n")
  case True
  then have "[0..<n] = [0..<b] @ [b..<n]"
    using upt_add_eq_append [of 0 b "n - b"] by simp
  moreover have "filter (\<lambda>q. q mod B = b) [0..<b] = []"
    using assms by (auto simp: filter_empty_conv)
  ultimately show ?thesis by simp
next
  case False
  then have "filter (\<lambda>q. q mod B = b) [0..<n] = []"
    using assms by (auto simp: filter_empty_conv)
  then show ?thesis using False by simp
qed

lemma push_transactions_each:
  assumes "b < B" "length txs \<le> max_size_t"
  shows "push_transactions store txs h b B s =
     Some (store_each store txs h (bucket_positions b B (length txs)) s)"
  using assms push_loop_each [of b B b txs store h s] filter_prefix [OF assms(1), of "length txs"]
  by (simp add: push_transactions_def bucket_positions_def)

lemma store_each_log:
  "store_each log_store txs h ps s = (True, s @ stores txs h ps)"
  by (induction ps arbitrary: s) (simp_all add: log_store_def stores_def)

lemma push_transactions_log:
  assumes "b < B" "length txs \<le> max_size_t"
  shows "push_transactions log_store txs h b B s =
     Some (True, s @ stores txs h (bucket_positions b B (length txs)))"
  using push_transactions_each [OF assms, of log_store h s] by (simp add: store_each_log)

lemma all_stored_append:
  "all_stored ok s (xs @ ys) = (all_stored ok s xs \<and> all_stored ok (s @ xs) ys)"
  by (induction xs arbitrary: s) simp_all

lemma store_each_log_if:
  "\<exists>evs. store_each (log_store_if ok) txs h ps s = (all_stored ok s evs, s @ evs) \<and>
     (all_stored ok s evs \<longrightarrow> evs = stores txs h ps) \<and>
     mset evs \<subseteq># mset (stores txs h ps)"
proof (induction ps arbitrary: s)
  case Nil
  then show ?case by (simp add: stores_def)
next
  case (Cons p ps)
  let ?e = "Tx_Store (txs ! p) h p"
  show ?case
  proof (cases "ok s (txs ! p) h p")
    case False
    then have "store_each (log_store_if ok) txs h (p # ps) s = (all_stored ok s [?e], s @ [?e])"
      by (simp add: log_store_if_def)
    moreover have "\<not> all_stored ok s [?e]"
      using False by simp
    moreover have "mset [?e] \<subseteq># mset (stores txs h (p # ps))"
      by (simp add: stores_def)
    ultimately show ?thesis by blast
  next
    case True
    obtain evs where evs:
      "store_each (log_store_if ok) txs h ps (s @ [?e]) = (all_stored ok (s @ [?e]) evs, (s @ [?e]) @ evs)"
      "all_stored ok (s @ [?e]) evs \<longrightarrow> evs = stores txs h ps"
      "mset evs \<subseteq># mset (stores txs h ps)"
      using Cons.IH [of "s @ [?e]"] by blast
    have "store_each (log_store_if ok) txs h (p # ps) s = (all_stored ok s (?e # evs), s @ ?e # evs)"
      using True evs(1) by (simp add: log_store_if_def)
    moreover have "all_stored ok s (?e # evs) \<longrightarrow> ?e # evs = stores txs h (p # ps)"
      using evs(2) by (simp add: stores_def)
    moreover have "mset (?e # evs) \<subseteq># mset (stores txs h (p # ps))"
      using evs(3) by (simp add: stores_def)
    ultimately show ?thesis by blast
  qed
qed

lemma push_transactions_log_if:
  assumes "b < B" "length txs \<le> max_size_t"
  shows "\<exists>evs. push_transactions (log_store_if ok) txs h b B s =
       Some (all_stored ok s evs, s @ evs) \<and>
     (all_stored ok s evs \<longrightarrow> evs = stores txs h (bucket_positions b B (length txs))) \<and>
     mset evs \<subseteq># mset (stores txs h (bucket_positions b B (length txs)))"
  using store_each_log_if [of ok txs h "bucket_positions b B (length txs)" s]
  by (simp add: push_transactions_each [OF assms])

lemma run_tasks_fired:
  assumes "\<forall>b \<in> set bs. b < B" "length txs \<le> max_size_t"
  shows "\<exists>post. run_tasks
           (map (\<lambda>bucket. do_push_transactions (log_store_if ok) txs h bucket B
              (synchronize handler B)) bs)
           (B, s) = Some (B, s @ post) \<and>
         mset post \<subseteq>#
           mset (concat (map (\<lambda>b. stores txs h (bucket_positions b B (length txs))) bs))"
  using assms
proof (induction bs arbitrary: s)
  case Nil
  then show ?case by simp
next
  case (Cons b bs)
  have b: "b < B" using Cons.prems by simp
  obtain evs where evs:
    "push_transactions (log_store_if ok) txs h b B s = Some (all_stored ok s evs, s @ evs)"
    "mset evs \<subseteq># mset (stores txs h (bucket_positions b B (length txs)))"
    using push_transactions_log_if [OF b Cons.prems(2), of ok h s] by blast
  have task: "do_push_transactions (log_store_if ok) txs h b B (synchronize handler B) (B, s) =
      Some (B, s @ evs)"
    using evs(1) by (simp add: do_push_transactions_def synchronize_def)
  obtain post where post:
    "run_tasks
       (map (\<lambda>bucket. do_push_transactions (log_store_if ok) txs h bucket B
          (synchronize handler B)) bs)
       (B, s @ evs) = Some (B, (s @ evs) @ post)"
    "mset post \<subseteq>#
       mset (concat (map (\<lambda>b. stores txs h (bucket_positions b B (length txs))) bs))"
    using Cons.IH [of "s @ evs"] Cons.prems by auto
  have "mset (evs @ post) \<subseteq>#
      mset (concat (map (\<lambda>b. stores txs h (bucket_positions b B (length txs))) (b # bs)))"
    using evs(2) post(2) by (simp add: subset_mset.add_mono)
  then show ?case
    using task post(1) by (intro exI [of _ "evs @ post"]) simp
qed

lemma run_tasks_log_if:
  assumes "\<forall>b \<in> set bs. b < B" "c + length bs = B" "bs \<noteq> []" "length txs \<le> max_size_t"
  shows "\<exists>log. run_tasks
           (map (\<lambda>bucket. do_push_transactions (log_store_if ok) txs h bucket B
              (synchronize (handle_do_push_transactions log_block log_done h) B)) bs)
           (c, s) = Some (B, s @ log) \<and>
         (all_stored ok s log \<longrightarrow>
            log = concat (map (\<lambda>b. stores txs h (bucket_positions b B (length txs))) bs) @
              [Block_Store h, Done success]) \<and>
         (\<not> all_stored ok s log \<longrightarrow>
            (\<exists>pre post. log = pre @ Done operation_failed # post \<and>
               mset (pre @ post) \<subseteq>#
                 mset (concat (map (\<lambda>b. stores txs h (bucket_positions b B (length txs))) bs))))"
  using assms
proof (induction bs arbitrary: c s)
  case Nil
  then show ?case by simp
next
  case (Cons b bs)
  let ?H = "handle_do_push_transactions log_block log_done h"
  let ?task = "\<lambda>bucket. do_push_transactions (log_store_if ok) txs h bucket B (synchronize ?H B)"
  let ?st = "\<lambda>b. stores txs h (bucket_positions b B (length txs))"
  have b: "b < B" and c: "c < B" using Cons.prems by simp_all
  obtain evs where evs:
    "push_transactions (log_store_if ok) txs h b B s = Some (all_stored ok s evs, s @ evs)"
    "all_stored ok s evs \<longrightarrow> evs = ?st b"
    "mset evs \<subseteq># mset (?st b)"
    using push_transactions_log_if [OF b Cons.prems(4), of ok h s] by blast
  show ?case
  proof (cases "all_stored ok s evs")
    case False
    have task: "?task b (c, s) = Some (B, s @ evs @ [Done operation_failed])"
      using evs(1) False c
      by (simp add: do_push_transactions_def synchronize_def handle_do_push_transactions_def
          log_done_def Let_def)
    obtain post where post:
      "run_tasks (map ?task bs) (B, s @ evs @ [Done operation_failed]) =
         Some (B, (s @ evs @ [Done operation_failed]) @ post)"
      "mset post \<subseteq># mset (concat (map ?st bs))"
      using run_tasks_fired [of bs B txs ok h ?H "s @ evs @ [Done operation_failed]"] Cons.prems
      by auto
    let ?log = "evs @ Done operation_failed # post"
    have run: "run_tasks (map ?task (b # bs)) (c, s) = Some (B, s @ ?log)"
      using task post(1) by simp
    have no: "\<not> all_stored ok s ?log"
      using False by (simp add: all_stored_append)
    have "mset (evs @ post) \<subseteq># mset (concat (map ?st (b # bs)))"
      using evs(3) post(2) by (simp add: subset_mset.add_mono)
    then have "\<exists>pre post'. ?log = pre @ Done operation_failed # post' \<and>
        mset (pre @ post') \<subseteq># mset (concat (map ?st (b # bs)))"
      by blast
    then show ?thesis
      using run no by blast
  next
    case True
    then have full: "evs = ?st b" using evs(2) by simp
    show ?thesis
    proof (cases "bs = []")
      case Nil: True
      then have "Suc c = B" using Cons.prems by simp
      then have task: "?task b (c, s) = Some (B, s @ evs @ [Block_Store h, Done success])"
        using evs(1) True c
        by (simp add: do_push_transactions_def synchronize_def handle_do_push_transactions_def
            log_done_def log_block_def Let_def)
      let ?log = "evs @ [Block_Store h, Done success]"
      have run: "run_tasks (map ?task (b # bs)) (c, s) = Some (B, s @ ?log)"
        using task Nil by simp
      have yes: "all_stored ok s ?log"
        using True by (simp add: all_stored_append)
      have "?log = concat (map ?st (b # bs)) @ [Block_Store h, Done success]"
        using full Nil by simp
      then show ?thesis
        using run yes by blast
    next
      case False
      then have sc: "Suc c \<noteq> B" "Suc c + length bs = B"
        using Cons.prems by (cases bs; simp)+
      have task: "?task b (c, s) = Some (Suc c, s @ evs)"
        using evs(1) True c sc(1)
        by (simp add: do_push_transactions_def synchronize_def Let_def)
      obtain log where log:
        "run_tasks (map ?task bs) (Suc c, s @ evs) = Some (B, (s @ evs) @ log)"
        "all_stored ok (s @ evs) log \<longrightarrow>
           log = concat (map ?st bs) @ [Block_Store h, Done success]"
        "\<not> all_stored ok (s @ evs) log \<longrightarrow>
            (\<exists>pre post. log = pre @ Done operation_failed # post \<and>
               mset (pre @ post) \<subseteq># mset (concat (map ?st bs)))"
        using Cons.IH [of "Suc c" "s @ evs"] Cons.prems False sc(2) by auto
      have run: "run_tasks (map ?task (b # bs)) (c, s) = Some (B, s @ evs @ log)"
        using task log(1) by simp
      have eq: "all_stored ok s (evs @ log) = all_stored ok (s @ evs) log"
        using True by (simp add: all_stored_append)
      have one: "all_stored ok s (evs @ log) \<longrightarrow>
          evs @ log = concat (map ?st (b # bs)) @ [Block_Store h, Done success]"
        using log(2) full eq by simp
      have two: "\<not> all_stored ok s (evs @ log) \<longrightarrow>
          (\<exists>pre post. evs @ log = pre @ Done operation_failed # post \<and>
             mset (pre @ post) \<subseteq># mset (concat (map ?st (b # bs))))"
      proof
        assume "\<not> all_stored ok s (evs @ log)"
        then obtain pre post where pp: "log = pre @ Done operation_failed # post"
          "mset (pre @ post) \<subseteq># mset (concat (map ?st bs))"
          using log(3) eq by blast
        have "evs @ log = (evs @ pre) @ Done operation_failed # post"
          using pp(1) by simp
        moreover have "mset ((evs @ pre) @ post) \<subseteq># mset (concat (map ?st (b # bs)))"
          using pp(2) evs(3) by (simp add: subset_mset.add_mono add.assoc)
        ultimately show "\<exists>pre post. evs @ log = pre @ Done operation_failed # post \<and>
             mset (pre @ post) \<subseteq># mset (concat (map ?st (b # bs)))"
          by blast
      qed
      show ?thesis
        using run one two by blast
    qed
  qed
qed

lemma filter_mset_below:
  "sum_list (map (\<lambda>b. image_mset g (filter_mset (\<lambda>q. f q = b) M)) [0..<B]) =
     image_mset g (filter_mset (\<lambda>q. f q < (B::nat)) M)"
proof (induction B)
  case 0
  then show ?case by simp
next
  case (Suc B)
  have "filter_mset (\<lambda>q. f q < B) M + filter_mset (\<lambda>q. f q = B) M =
        filter_mset (\<lambda>q. f q < Suc B) M"
    by (rule multiset_eqI) auto
  then have "image_mset g (filter_mset (\<lambda>q. f q < B) M) +
        image_mset g (filter_mset (\<lambda>q. f q = B) M) =
        image_mset g (filter_mset (\<lambda>q. f q < Suc B) M)"
    by (simp flip: image_mset_union)
  then show ?case using Suc by simp
qed

lemma sum_list_mset_cong:
  fixes h :: "'a \<Rightarrow> 'b multiset"
  assumes "mset xs = mset ys"
  shows "sum_list (map h xs) = sum_list (map h ys)"
proof -
  have "sum_list (map h xs) = sum_mset (image_mset h (mset xs))"
    by (simp flip: sum_mset_sum_list)
  also have "\<dots> = sum_mset (image_mset h (mset ys))"
    by (simp only: assms)
  also have "\<dots> = sum_list (map h ys)"
    by (simp flip: sum_mset_sum_list)
  finally show ?thesis .
qed

lemma stores_all:
  assumes "mset order = mset [0..<B]" "0 < B"
  shows "mset (concat (map (\<lambda>b. stores txs h (bucket_positions b B n)) order)) =
         mset (stores txs h [0..<n])"
proof -
  let ?ev = "\<lambda>q. Tx_Store (txs ! q) h q"
  let ?h = "\<lambda>b. image_mset ?ev (filter_mset (\<lambda>q. q mod B = b) (mset [0..<n]))"
  have "mset (concat (map (\<lambda>b. stores txs h (bucket_positions b B n)) order)) =
        sum_list (map ?h order)"
    by (simp add: mset_concat stores_def bucket_positions_def comp_def del: mset_upt)
  also have "\<dots> = sum_list (map ?h [0..<B])"
    by (rule sum_list_mset_cong [OF assms(1)])
  also have "\<dots> = image_mset ?ev (filter_mset (\<lambda>q. q mod B < B) (mset [0..<n]))"
    by (rule filter_mset_below)
  also have "\<dots> = image_mset ?ev (mset [0..<n])"
    using assms(2) by simp
  finally show ?thesis by (simp add: stores_def)
qed


lemma bucket_positions_set:
  assumes "b < B"
  shows "set (bucket_positions b B n) = {q. q < n \<and> (\<exists>i. q = b + i * B)}"
proof -
  have "q mod B = b \<longleftrightarrow> (\<exists>i. q = b + i * B)" for q
  proof
    assume "q mod B = b"
    then have "q = b + (q div B) * B" by (metis div_mult_mod_eq add.commute)
    then show "\<exists>i. q = b + i * B" ..
  next
    assume "\<exists>i. q = b + i * B"
    then show "q mod B = b" using assms by auto
  qed
  then show ?thesis by (auto simp: bucket_positions_def)
qed

lemma stores_no_block: "Block_Store h' \<notin> set (stores txs h ps)"
  by (auto simp: stores_def)

text \<open>
  C6: a block of \<open>n\<close> transactions is pushed with \<open>B = min(threads, n)\<close> buckets.
  Bucket \<open>b\<close> stores exactly the transactions at the positions \<open>b, b + B, b + 2B, ...\<close>
  below \<open>n\<close>, in increasing order and each with its own position (whatever the store
  does, up to the first store that fails; all of them when none fails); every position
  below \<open>n\<close> belongs to exactly one bucket.  For the whole push, whatever the order in
  which the bucket tasks complete and whatever the outcomes \<open>ok\<close> of the stores: when
  \<open>verify_push\<close> rejects the block, nothing is stored and the handler receives its code;
  when every store of the run succeeds, every transaction is stored exactly once, the
  block is stored after all of them and the handler then receives success; when some
  store fails, the block is not stored, the handler is called once, with
  \<open>operation_failed\<close>, and no transaction is stored twice.
\<close>

theorem push_partition:
  assumes "0 < threads" and "txs \<noteq> []" and "length txs \<le> max_size_t"
    and "mset order = mset [0..<min threads (length txs)]"
    and "b < min threads (length txs)" and "q < length txs"
  shows
    "push_transactions store txs h b (min threads (length txs)) s' =
       Some (store_each store txs h
         (bucket_positions b (min threads (length txs)) (length txs)) s') \<and>
     push_transactions log_store txs h b (min threads (length txs)) s =
       Some (True, s @ stores txs h (bucket_positions b (min threads (length txs)) (length txs))) \<and>
     set (bucket_positions b (min threads (length txs)) (length txs)) =
       {p. p < length txs \<and> (\<exists>i. p = b + i * min threads (length txs))} \<and>
     sorted (bucket_positions b (min threads (length txs)) (length txs)) \<and>
     distinct (bucket_positions b (min threads (length txs)) (length txs)) \<and>
     (\<exists>!b'. b' < min threads (length txs) \<and>
        q \<in> set (bucket_positions b' (min threads (length txs)) (length txs))) \<and>
     (verify s txs h \<noteq> success \<longrightarrow>
        do_push verify (log_store_if ok) log_block log_done threads order txs h s =
          Some (s @ [Done (verify s txs h)])) \<and>
     (verify s txs h = success \<longrightarrow>
        (\<exists>log. do_push verify (log_store_if ok) log_block log_done threads order txs h s =
           Some (s @ log) \<and>
           (all_stored ok s log \<longrightarrow>
              (\<exists>evs. log = evs @ [Block_Store h, Done success] \<and>
                 mset evs = mset (stores txs h [0..<length txs]))) \<and>
           (\<not> all_stored ok s log \<longrightarrow>
              Block_Store h \<notin> set log \<and>
              (\<exists>pre post. log = pre @ Done operation_failed # post \<and>
                 mset (pre @ post) \<subseteq># mset (stores txs h [0..<length txs])))))"
proof -
  let ?B = "min threads (length txs)" and ?n = "length txs"
  let ?st = "\<lambda>b. stores txs h (bucket_positions b ?B ?n)"
  have B: "0 < ?B" using assms(1,2) by simp
  have bounds: "\<forall>b \<in> set order. b < ?B"
    using assms(4) by (metis atLeastLessThan_iff mset_eq_setD set_upt)
  have len: "length order = ?B"
    using assms(4) by (metis length_upt mset_eq_length minus_nat.diff_0)
  have ne: "order \<noteq> []"
  proof
    assume "order = []"
    then have "?B = 0" using len by simp
    then show False using B by simp
  qed
  have all: "mset (concat (map ?st order)) = mset (stores txs h [0..<?n])"
    by (rule stores_all [OF assms(4) B])
  have rejected: "verify s txs h \<noteq> success \<longrightarrow>
        do_push verify (log_store_if ok) log_block log_done threads order txs h s =
          Some (s @ [Done (verify s txs h)])"
    by (simp add: do_push_def handle_do_push_transactions_def log_done_def Let_def)
  have pushed: "\<exists>log. do_push verify (log_store_if ok) log_block log_done threads order txs h s =
           Some (s @ log) \<and>
           (all_stored ok s log \<longrightarrow>
              (\<exists>evs. log = evs @ [Block_Store h, Done success] \<and>
                 mset evs = mset (stores txs h [0..<?n]))) \<and>
           (\<not> all_stored ok s log \<longrightarrow>
              Block_Store h \<notin> set log \<and>
              (\<exists>pre post. log = pre @ Done operation_failed # post \<and>
                 mset (pre @ post) \<subseteq># mset (stores txs h [0..<?n])))"
    if v: "verify s txs h = success"
  proof -
    obtain log where log:
      "run_tasks
         (map (\<lambda>bucket. do_push_transactions (log_store_if ok) txs h bucket ?B
            (synchronize (handle_do_push_transactions log_block log_done h) ?B)) order)
         (0, s) = Some (?B, s @ log)"
      "all_stored ok s log \<longrightarrow> log = concat (map ?st order) @ [Block_Store h, Done success]"
      "\<not> all_stored ok s log \<longrightarrow>
         (\<exists>pre post. log = pre @ Done operation_failed # post \<and>
            mset (pre @ post) \<subseteq># mset (concat (map ?st order)))"
      using run_tasks_log_if [OF bounds _ ne assms(3), of 0 ok h s] len by auto
    have run: "do_push verify (log_store_if ok) log_block log_done threads order txs h s =
        Some (s @ log)"
      using log(1) v by (simp add: do_push_def Let_def)
    have one: "all_stored ok s log \<longrightarrow>
        (\<exists>evs. log = evs @ [Block_Store h, Done success] \<and>
           mset evs = mset (stores txs h [0..<?n]))"
      using log(2) all by blast
    have two: "\<not> all_stored ok s log \<longrightarrow>
        Block_Store h \<notin> set log \<and>
        (\<exists>pre post. log = pre @ Done operation_failed # post \<and>
           mset (pre @ post) \<subseteq># mset (stores txs h [0..<?n]))"
    proof
      assume "\<not> all_stored ok s log"
      then obtain pre post where pp: "log = pre @ Done operation_failed # post"
        "mset (pre @ post) \<subseteq># mset (stores txs h [0..<?n])"
        using log(3) all by auto
      have "set (pre @ post) \<subseteq> set (stores txs h [0..<?n])"
        using set_mset_mono [OF pp(2)] by simp
      then have "Block_Store h \<notin> set (pre @ post)"
        using stores_no_block [of h txs h "[0..<?n]"] by blast
      then have "Block_Store h \<notin> set log"
        using pp(1) by simp
      then show "Block_Store h \<notin> set log \<and>
        (\<exists>pre post. log = pre @ Done operation_failed # post \<and>
           mset (pre @ post) \<subseteq># mset (stores txs h [0..<?n]))"
        using pp by blast
    qed
    show ?thesis
      using run one two by blast
  qed
  have "q mod ?B < ?B"
    using B by (rule mod_less_divisor)
  then have uniq: "\<exists>!b'. b' < ?B \<and> q \<in> set (bucket_positions b' ?B ?n)"
    using assms(6) by (intro ex1I [of _ "q mod ?B"]) (simp_all add: bucket_positions_def)
  have sorted: "sorted (bucket_positions b ?B ?n)" "distinct (bucket_positions b ?B ?n)"
    by (simp_all add: bucket_positions_def sorted_wrt_filter)
  show ?thesis
    using push_transactions_each [OF assms(5,3), of store h s']
      push_transactions_log [OF assms(5,3), of h s] bucket_positions_set [OF assms(5), of ?n]
      rejected pushed uniq sorted
    by blast
qed


theorem push_partition_witness:
  "push_transactions (\<lambda>s tx height position. (position \<noteq> 2, s @ [position]))
       [10, 20, 30 :: nat] 7 0 2 [] = Some (False, [0, 2]) \<and>
   push_transactions log_store [10, 20, 30 :: nat] 7 1 2 [] =
       Some (True, [Tx_Store 20 7 1]) \<and>
   push_transactions log_store [10, 20, 30 :: nat] 7 0 2 [] =
       Some (True, [Tx_Store 10 7 0, Tx_Store 30 7 2]) \<and>
   bucket_positions 0 2 3 = [0, 2] \<and>
   do_push (\<lambda>s txs height. store_block_invalid_height)
       (log_store_if (\<lambda>s tx height position. True)) log_block log_done 2 [1, 0]
       [10, 20, 30 :: nat] 7 [] = Some [Done store_block_invalid_height] \<and>
   do_push (\<lambda>s txs height. success)
       (log_store_if (\<lambda>s tx height position. True)) log_block log_done 2 [1, 0]
       [10, 20, 30 :: nat] 7 [] =
     Some [Tx_Store 20 7 1, Tx_Store 10 7 0, Tx_Store 30 7 2, Block_Store 7, Done success] \<and>
   all_stored (\<lambda>s tx height position. True) []
     [Tx_Store 20 7 1, Tx_Store 10 7 0, Tx_Store (30 :: nat) 7 2, Block_Store 7, Done success] \<and>
   (\<exists>evs. [Tx_Store 20 7 1, Tx_Store 10 7 0, Tx_Store (30 :: nat) 7 2, Block_Store 7,
             Done success] = evs @ [Block_Store 7, Done success] \<and>
      mset evs = mset [Tx_Store 10 7 0, Tx_Store 20 7 1, Tx_Store 30 7 2]) \<and>
   do_push (\<lambda>s txs height. success)
       (log_store_if (\<lambda>s tx height position. position \<noteq> 0)) log_block log_done 2 [0, 1]
       [10, 20, 30 :: nat] 7 [] =
     Some [Tx_Store 10 7 0, Done operation_failed, Tx_Store 20 7 1] \<and>
   \<not> all_stored (\<lambda>s tx height position. position \<noteq> 0) []
     [Tx_Store (10 :: nat) 7 0, Done operation_failed, Tx_Store 20 7 1] \<and>
   Block_Store 7 \<notin> set [Tx_Store (10 :: nat) 7 0, Done operation_failed, Tx_Store 20 7 1] \<and>
   (\<exists>pre post. [Tx_Store (10 :: nat) 7 0, Done operation_failed, Tx_Store 20 7 1] =
        pre @ Done operation_failed # post \<and>
      mset (pre @ post) \<subseteq># mset [Tx_Store 10 7 0, Tx_Store 20 7 1, Tx_Store 30 7 2])"
proof -
  let ?fail = "\<lambda>(s::nat list) (tx::nat) (height::nat) position. (position \<noteq> 2, s @ [position])"
  let ?txs = "[10, 20, 30 :: nat]"
  let ?yes = "\<lambda>(s::nat event list) (tx::nat) (height::nat) (position::nat). True"
  let ?no = "\<lambda>(s::nat event list) (tx::nat) (height::nat) (position::nat). position \<noteq> 0"
  let ?ok = "\<lambda>(s::nat event list) (txs::nat list) (height::nat). success"
  let ?bad = "\<lambda>(s::nat event list) (txs::nat list) (height::nat). store_block_invalid_height"
  have p: "bucket_positions 0 2 3 = [0, 2]" "bucket_positions (Suc 0) 2 3 = [Suc 0]"
    by (simp_all add: bucket_positions_def upt_rec)
  have m: "min 2 (3::nat) = 2" "length ?txs = 3"
    by simp_all
  have u: "mset [1, 0::nat] = mset [0..<2]" "mset [0, 1::nat] = mset [0..<2]"
    by (simp_all add: upt_rec)
  have l: "(3::nat) \<le> max_size_t"
    by (simp add: max_size_t_def)
  have s: "stores ?txs 7 [1] = [Tx_Store 20 7 1]"
    "stores ?txs 7 [0, 2] = [Tx_Store 10 7 0, Tx_Store 30 7 2]"
    "stores ?txs 7 [0..<3] = [Tx_Store 10 7 0, Tx_Store 20 7 1, Tx_Store 30 7 2]"
    by (simp_all add: stores_def upt_rec)
  have f: "store_each ?fail ?txs 7 [0, 2] [] = (False, [0, 2])"
    by simp
  have e: "push_transactions (log_store_if ok) ?txs 7 0 2 s' =
        Some (store_each (log_store_if ok) ?txs 7 [0, 2] s')"
    "push_transactions (log_store_if ok) ?txs 7 (Suc 0) 2 s' =
        Some (store_each (log_store_if ok) ?txs 7 [Suc 0] s')" for ok s'
    using push_transactions_each [of 0 2 ?txs "log_store_if ok" 7 s', unfolded m(2) p(1)]
      push_transactions_each [of "Suc 0" 2 ?txs "log_store_if ok" 7 s', unfolded m(2) p(2)] l
    by simp_all
  have run_yes: "do_push ?ok (log_store_if ?yes) log_block log_done 2 [1, 0] ?txs 7 [] =
      Some [Tx_Store 20 7 1, Tx_Store 10 7 0, Tx_Store 30 7 2, Block_Store 7, Done success]"
    by (simp add: do_push_def do_push_transactions_def e [unfolded numeral_2_eq_2] synchronize_def
        handle_do_push_transactions_def log_store_if_def log_block_def log_done_def Let_def)
  have run_no: "do_push ?ok (log_store_if ?no) log_block log_done 2 [0, 1] ?txs 7 [] =
      Some [Tx_Store 10 7 0, Done operation_failed, Tx_Store 20 7 1]"
    by (simp add: do_push_def do_push_transactions_def e [unfolded numeral_2_eq_2] synchronize_def
        handle_do_push_transactions_def log_store_if_def log_block_def log_done_def Let_def)
  have yes: "all_stored ?yes []
      [Tx_Store 20 7 1, Tx_Store 10 7 0, Tx_Store (30 :: nat) 7 2, Block_Store 7, Done success]"
    by simp
  have no: "\<not> all_stored ?no [] [Tx_Store (10 :: nat) 7 0, Done operation_failed, Tx_Store 20 7 1]"
    by simp
  have a: "0 < (2::nat)" "?txs \<noteq> []" "(0::nat) < 2" "(1::nat) < 2" "(0::nat) < 3"
    by simp_all
  note t = push_partition [where threads = 2 and txs = ?txs and h = 7 and s = "[]"
      and s' = "[]" and store = ?fail and q = 0, unfolded m, OF a(1) a(2) l _ _ a(5)]
  note t_yes = t [where b = 0 and verify = ?ok and ok = ?yes, OF u(1) a(3), unfolded p s f]
  note t_one = t [where b = 1 and verify = ?ok and ok = ?yes, OF u(1) a(4)]
  note t_bad = t [where b = 0 and verify = ?bad and ok = ?yes, OF u(1) a(3)]
  note t_no = t [where b = 0 and verify = ?ok and ok = ?no, OF u(2) a(3), unfolded s]
  have c0: "push_transactions ?fail ?txs 7 0 2 [] = Some (False, [0, 2])"
    "push_transactions log_store ?txs 7 0 2 [] = Some (True, [Tx_Store 10 7 0, Tx_Store 30 7 2])"
    using t_yes by simp_all
  have c1: "push_transactions log_store ?txs 7 1 2 [] = Some (True, [Tx_Store 20 7 1])"
    using t_one by (simp add: p stores_def)
  have c2: "do_push ?bad (log_store_if ?yes) log_block log_done 2 [1, 0] ?txs 7 [] =
      Some [Done store_block_invalid_height]"
    using t_bad by simp
  obtain log where log:
    "do_push ?ok (log_store_if ?yes) log_block log_done 2 [1, 0] ?txs 7 [] = Some ([] @ log)"
    "all_stored ?yes [] log \<longrightarrow>
       (\<exists>evs. log = evs @ [Block_Store 7, Done success] \<and>
          mset evs = mset [Tx_Store 10 7 0, Tx_Store 20 7 1, Tx_Store 30 7 2])"
    using t_yes by blast
  have "log = [Tx_Store 20 7 1, Tx_Store 10 7 0, Tx_Store 30 7 2, Block_Store 7, Done success]"
    using log(1) run_yes by simp
  then have c_yes: "\<exists>evs. [Tx_Store 20 7 1, Tx_Store 10 7 0, Tx_Store (30 :: nat) 7 2,
        Block_Store 7, Done success] = evs @ [Block_Store 7, Done success] \<and>
      mset evs = mset [Tx_Store 10 7 0, Tx_Store 20 7 1, Tx_Store 30 7 2]"
    using log(2) yes by simp
  obtain log' where log':
    "do_push ?ok (log_store_if ?no) log_block log_done 2 [0, 1] ?txs 7 [] = Some ([] @ log')"
    "\<not> all_stored ?no [] log' \<longrightarrow>
       Block_Store 7 \<notin> set log' \<and>
       (\<exists>pre post. log' = pre @ Done operation_failed # post \<and>
          mset (pre @ post) \<subseteq># mset [Tx_Store 10 7 0, Tx_Store 20 7 1, Tx_Store 30 7 2])"
    using t_no by blast
  have "log' = [Tx_Store 10 7 0, Done operation_failed, Tx_Store 20 7 1]"
    using log'(1) run_no by simp
  then have c_no: "Block_Store 7 \<notin>
      set [Tx_Store (10 :: nat) 7 0, Done operation_failed, Tx_Store 20 7 1] \<and>
   (\<exists>pre post. [Tx_Store (10 :: nat) 7 0, Done operation_failed, Tx_Store 20 7 1] =
        pre @ Done operation_failed # post \<and>
      mset (pre @ post) \<subseteq># mset [Tx_Store 10 7 0, Tx_Store 20 7 1, Tx_Store 30 7 2])"
    using log'(2) no by simp
  show ?thesis
    using c0 c1 p(1) c2 run_yes yes c_yes run_no no c_no by blast
qed

section \<open>Properties of pop\<close>

lemma pop_loop_single:
  "pop_loop pool [] buckets position db = Some (True, db)"
  by (subst pop_loop.simps) simp

lemma verify_top_mismatch:
  "top ops db block_index \<noteq> Some height \<Longrightarrow>
     verify_top ops db height block_index = operation_failed"
  by (simp add: verify_top_def split: option.split)

text \<open>
  C7 (as stated): a pop whose height disagrees with the top of the index returns
  \<open>store_block_invalid_height\<close>.  With the top at height 5, popping at height 3 returns
  \<open>operation_failed\<close>, for the block and for the header.
\<close>

theorem pop_invalid_height_counterexample:
  "pop_block chain_ops 5 3 = Some (operation_failed, None, 5) \<and>
   pop_header chain_ops 5 3 = Some (operation_failed, None, 5) \<and>
   operation_failed \<noteq> store_block_invalid_height"
  by (simp add: pop_block_def pop_header_def verify_top_def chain_ops_def)

text \<open>
  C7 (amended): a pop of a block or of a header whose height is not the top of its
  index (or whose index has no top) returns \<open>operation_failed\<close>, assigns no block or
  header, and leaves the store unchanged.
\<close>

theorem pop_height_mismatch:
  "(top ops db True \<noteq> Some height \<longrightarrow>
      pop_block ops db height = Some (operation_failed, None, db)) \<and>
   (top ops db False \<noteq> Some height \<longrightarrow>
      pop_header ops db height = Some (operation_failed, None, db))"
  by (simp add: pop_block_def pop_header_def verify_top_mismatch)

theorem pop_height_mismatch_witness:
  "top chain_ops (5::nat) True \<noteq> Some 3 \<and>
   pop_block chain_ops 5 3 = Some (operation_failed, None, 5) \<and>
   top chain_ops (5::nat) False \<noteq> Some 3 \<and>
   pop_header chain_ops 5 3 = Some (operation_failed, None, 5)"
  using pop_height_mismatch [of chain_ops 5 3]
  by (simp add: chain_ops_def)

lemma pop_top_succeeds:
  "pop_block chain_ops 5 5 = Some (success, Some ((), []), 4)"
  by (simp add: pop_block_def pop_write_def pop_transactions_def pop_loop_single
      verify_top_def chain_ops_def)

section \<open>Properties of the slab hash table\<close>

lemma length_to_little_endian [simp]: "length (to_little_endian n v) = n"
  by (induction n arbitrary: v) simp_all

lemma from_to_little_endian: "from_little_endian (to_little_endian n v) = v mod 256 ^ n"
proof (induction n arbitrary: v)
  case 0
  then show ?case by simp
next
  case (Suc n)
  have "unat (word_of_nat (v mod 256) :: byte) = v mod 256"
    by (simp add: unat_of_nat)
  then show ?case
    using Suc [of "v div 256"] by (simp add: mod_mult2_eq)
qed

lemma read_write_same: "read_bytes (write_bytes m off bs) off (length bs) = bs"
  by (rule nth_equalityI) (simp_all add: read_bytes_def write_bytes_def)

lemma read_write_other:
  "off' + n \<le> off \<or> off + length bs \<le> off' \<Longrightarrow>
     read_bytes (write_bytes m off bs) off' n = read_bytes m off' n"
  by (auto simp: read_bytes_def write_bytes_def)

lemma offset_round_trip:
  assumes "p \<le> max_size_t"
  shows "unat (word_of_nat p :: file_offset) = p"
  using assms by (simp add: unat_of_nat max_size_t_def)

lemma store_result:
  assumes "slab_store t k v n = Some (p, t')"
  shows "p = payload_size t + prefix_size k"
    and "header t' = (header t)[bucket_index t k := word_of_nat (payload_size t)]"
    and "payload_size t' = payload_size t + prefix_size k + n"
    and "mem t' = write_bytes
           (write_bytes (write_bytes (mem t) (payload_size t) k) (payload_size t + prefix_size k) v)
           (payload_size t + length k) (to_little_endian 8 (read_bucket_value t k))"
    and "payload_size t + prefix_size k + n \<le> max_size_t"
  using assms
  by (auto simp: slab_store_def slab_create_def new_slab_def slab_link_def write_next_position_def
      Let_def read_bucket_value_def bucket_index_def split: if_splits)

lemma store_row:
  assumes "slab_store t k v n = Some (p, t')"
  shows "slab_compare (mem t') (payload_size t) k"
    and "read_bytes (mem t') p (length v) = v"
    and "next_position (mem t') (payload_size t) k = read_bucket_value t k"
proof -
  note r = store_result [OF assms]
  show "slab_compare (mem t') (payload_size t) k"
    unfolding slab_compare_def r(4)
    by (simp add: read_write_other read_write_same prefix_size_def)
  show "read_bytes (mem t') p (length v) = v"
    unfolding r(1) r(4)
    by (simp add: read_write_other read_write_same prefix_size_def)
  have "read_bytes (mem t') (payload_size t + length k) 8 =
      to_little_endian 8 (read_bucket_value t k)"
    unfolding r(4) using read_write_same [of _ _ "to_little_endian 8 (read_bucket_value t k)"]
    by simp
  moreover have "read_bucket_value t k < 2 ^ 64"
    unfolding read_bucket_value_def
    using unsigned_less [of "header t ! bucket_index t k", where ?'a = nat] by simp
  ultimately show "next_position (mem t') (payload_size t) k = read_bucket_value t k"
    by (simp add: next_position_def from_to_little_endian)
qed

lemma store_frame:
  assumes "slab_store t k v n = Some (p, t')" and "a + m \<le> payload_size t"
  shows "read_bytes (mem t') a m = read_bytes (mem t) a m"
  unfolding store_result(4) [OF assms(1)] using assms(2)
  by (simp add: read_write_other prefix_size_def)

lemma store_bucket:
  assumes "slab_store t k v n = Some (p, t')" and "header t \<noteq> []"
  shows "read_bucket_value t' k = payload_size t"
proof -
  have "bucket_index t k < length (header t)"
    using assms(2) by (simp add: bucket_index_def remainder_def)
  moreover have "payload_size t \<le> max_size_t"
    using store_result(5) [OF assms(1)] by simp
  ultimately show ?thesis
    using store_result(2) [OF assms(1)]
    by (simp add: read_bucket_value_def bucket_index_def offset_round_trip)
qed

lemma find_head:
  assumes "read_bucket_value t k = r" and "r \<noteq> slab_empty" and "slab_compare (mem t) r k"
  shows "slab_find t k = Some (Some (r + prefix_size k))"
  using assms by (simp add: slab_find_def find_loop.simps)

lemma find_store:
  assumes "slab_store t k v n = Some (p, t')" and "header t \<noteq> []" and "0 < payload_size t"
  shows "slab_find t' k = Some (Some p)"
  using find_head [OF store_bucket [OF assms(1,2)] _ store_row(1) [OF assms(1)]] assms(3)
    store_result(1) [OF assms(1)]
  by (simp add: slab_empty_def)

lemma store_valid:
  assumes "slab_store t k v n = Some (p, t')" and "header t \<noteq> []" and "0 < payload_size t"
  shows "header t' \<noteq> []" and "0 < payload_size t'"
  using assms store_result(2,3) [OF assms(1)] by simp_all

lemma store_succeeds:
  assumes "payload_size t + prefix_size k + n \<le> max_size_t"
  obtains t' where "slab_store t k v n = Some (payload_size t + prefix_size k, t')"
  using assms by (simp add: slab_store_def slab_create_def new_slab_def Let_def)

text \<open>
  C1: in a created table (at least one bucket, payload size past the size field), after
  \<open>store(k, v)\<close> returns, \<open>find(k)\<close> returns the address that \<open>store\<close> returned and the
  bytes there are \<open>v\<close>; after a second \<open>store(k, v')\<close> returns, \<open>find(k)\<close> returns the
  address of the second row, holding \<open>v'\<close>.
\<close>

theorem find_most_recent:
  assumes "header t \<noteq> []" and "0 < payload_size t"
    and "slab_store t k v n = Some (p, t1)"
    and "slab_store t1 k v' n' = Some (p', t2)"
  shows "slab_find t1 k = Some (Some p) \<and> read_bytes (mem t1) p (length v) = v \<and>
         slab_find t2 k = Some (Some p') \<and> read_bytes (mem t2) p' (length v') = v'"
  using find_store [OF assms(3,1,2)] store_row(2) [OF assms(3)]
    find_store [OF assms(4) store_valid [OF assms(3,1,2)]] store_row(2) [OF assms(4)]
  by simp

theorem find_most_recent_witness:
  "\<exists>t1 t2. header table0 \<noteq> [] \<and> 0 < payload_size table0 \<and>
     slab_store table0 key1 [170] 1 = Some (18, t1) \<and>
     slab_store t1 key1 [187, 204] 2 = Some (29, t2) \<and>
     slab_find t1 key1 = Some (Some 18) \<and> read_bytes (mem t1) 18 1 = [170] \<and>
     slab_find t2 key1 = Some (Some 29) \<and> read_bytes (mem t2) 29 2 = [187, 204]"
proof -
  have h: "header table0 \<noteq> []" "0 < payload_size table0"
    by (simp_all add: table0_def)
  obtain t1 where s1: "slab_store table0 key1 [170] 1 = Some (18, t1)"
    using store_succeeds [of table0 key1 1 "[170]"]
    by (auto simp: table0_def key1_def prefix_size_def max_size_t_def)
  have "payload_size t1 = 19"
    using store_result(3) [OF s1] by (simp add: table0_def key1_def prefix_size_def)
  then obtain t2 where s2: "slab_store t1 key1 [187, 204] 2 = Some (29, t2)"
    using store_succeeds [of t1 key1 2 "[187, 204]"]
    by (auto simp: key1_def prefix_size_def max_size_t_def)
  show ?thesis
    using find_most_recent [OF h s1 s2] h s1 s2 by (auto simp: numeral_2_eq_2)
qed

lemma slab_unlink_most_recent:
  assumes "header t \<noteq> []" and "0 < payload_size t"
    and "slab_store t k v1 n1 = Some (p1, t1)" and "length v1 \<le> n1"
    and "slab_store t1 k v2 n2 = Some (p2, t2)"
  shows "\<exists>r1 r2 t3.
           read_bucket_value t2 k = r2 \<and> r2 \<noteq> slab_empty \<and> slab_compare (mem t2) r2 k \<and>
           r2 + prefix_size k = p2 \<and> read_bytes (mem t2) p2 (length v2) = v2 \<and>
           next_position (mem t2) r2 k = r1 \<and> r1 \<noteq> slab_empty \<and> slab_compare (mem t2) r1 k \<and>
           r1 + prefix_size k = p1 \<and> read_bytes (mem t2) p1 (length v1) = v1 \<and>
           next_position (mem t2) r1 k = read_bucket_value t k \<and>
           slab_unlink t2 k = Some (True, t3) \<and> mem t3 = mem t2 \<and>
           read_bucket_value t3 k = r1 \<and>
           slab_find t3 k = Some (Some p1) \<and> read_bytes (mem t3) p1 (length v1) = v1"
proof -
  let ?r1 = "payload_size t" and ?r2 = "payload_size t1"
  let ?t3 = "slab_link t2 k ?r1"
  note v1 = store_valid [OF assms(3,1,2)]
  note s1 = store_result [OF assms(3)] and s2 = store_result [OF assms(5)]
  have b2: "read_bucket_value t2 k = ?r2"
    by (rule store_bucket [OF assms(5) v1(1)])
  have n2: "next_position (mem t2) ?r2 k = ?r1"
    using store_row(3) [OF assms(5)] store_bucket [OF assms(3,1)] by simp
  have c1: "slab_compare (mem t2) ?r1 k"
    using store_row(1) [OF assms(3)] store_frame [OF assms(5), of ?r1 "length k"] s1(3)
    by (simp add: slab_compare_def prefix_size_def)
  have d1: "read_bytes (mem t2) p1 (length v1) = v1"
    using store_row(2) [OF assms(3)] store_frame [OF assms(5), of p1 "length v1"] s1(1,3) assms(4)
    by simp
  have n1: "next_position (mem t2) ?r1 k = read_bucket_value t k"
    using store_row(3) [OF assms(3)] store_frame [OF assms(5), of "?r1 + length k" 8] s1(3)
    by (simp add: next_position_def prefix_size_def)
  have u: "slab_unlink t2 k = Some (True, ?t3)"
    using b2 n2 store_row(1) [OF assms(5)] by (simp add: slab_unlink_def)
  have idx: "bucket_index t2 k < length (header t2)"
    using v1(1) s2(2) by (simp add: bucket_index_def remainder_def)
  have b3: "read_bucket_value ?t3 k = ?r1"
    using idx s1(5) by (simp add: read_bucket_value_def slab_link_def bucket_index_def offset_round_trip)
  have f3: "slab_find ?t3 k = Some (Some p1)"
    using find_head [OF b3] assms(2) c1 s1(1) by (simp add: slab_empty_def slab_link_def)
  show ?thesis
    using b2 n2 c1 d1 n1 u b3 f3 store_row(1,2) [OF assms(5)] s1(1) s2(1) assms(2) v1(2)
    by (intro exI [of _ ?r1] exI [of _ ?r2] exI [of _ ?t3])
      (simp add: slab_empty_def slab_link_def)
qed

section \<open>Properties of the record hash table\<close>

lemma index_round_trip:
  assumes "i \<le> max_uint32"
  shows "unat (word_of_nat i :: array_index) = i"
  using assms by (simp add: unat_of_nat max_uint32_def)

lemma record_store_result:
  assumes "record_store t k v = Some (i, t')"
  shows "i = record_count t"
    and "r_header t' = (r_header t)[record_bucket_index t k := word_of_nat (record_count t)]"
    and "record_count t' = record_count t + 1"
    and "record_size t' = record_size t"
    and "r_mem t' = write_bytes
           (write_bytes (write_bytes (r_mem t) (i * record_size t) k)
              (i * record_size t + length k + 4) v)
           (i * record_size t + length k) (to_little_endian 4 (record_read_bucket_value t k))"
    and "record_count t < max_uint32"
  using assms
  by (auto simp: record_store_def record_create_def new_records_def record_link_def
      row_link_def Let_def record_read_bucket_value_def record_bucket_index_def
      raw_data_def split: if_splits)

lemma record_store_row:
  assumes "record_store t k v = Some (i, t')"
  shows "record_compare t' i k"
    and "read_bytes (r_mem t') (record_data t' i k) (length v) = v"
    and "next_index t' i k = record_read_bucket_value t k"
proof -
  note r = record_store_result [OF assms]
  show "record_compare t' i k"
    unfolding record_compare_def raw_data_def r(4) r(5)
    by (simp add: read_write_other read_write_same)
  show "read_bytes (r_mem t') (record_data t' i k) (length v) = v"
    unfolding record_data_def raw_data_def record_prefix_size_def r(4) r(5)
    by (simp add: read_write_other read_write_same add.assoc)
  have "read_bytes (r_mem t') (i * record_size t + length k) 4 =
      to_little_endian 4 (record_read_bucket_value t k)"
    unfolding r(5)
    using read_write_same [of _ _ "to_little_endian 4 (record_read_bucket_value t k)"]
    by simp
  moreover have "record_read_bucket_value t k < 2 ^ 32"
    unfolding record_read_bucket_value_def
    using unsigned_less [of "r_header t ! record_bucket_index t k", where ?'a = nat] by simp
  ultimately show "next_index t' i k = record_read_bucket_value t k"
    by (simp add: next_index_def raw_data_def r(4) from_to_little_endian)
qed

lemma record_store_frame:
  assumes "record_store t k v = Some (i, t')" and "a + m \<le> i * record_size t"
  shows "read_bytes (r_mem t') a m = read_bytes (r_mem t) a m"
  unfolding record_store_result(5) [OF assms(1)] using assms(2)
  by (simp add: read_write_other)

lemma record_store_bucket:
  assumes "record_store t k v = Some (i, t')" and "r_header t \<noteq> []"
  shows "record_read_bucket_value t' k = i"
proof -
  have "record_bucket_index t k < length (r_header t)"
    using assms(2) by (simp add: record_bucket_index_def remainder_def)
  moreover have "record_count t \<le> max_uint32"
    using record_store_result(6) [OF assms(1)] by simp
  ultimately show ?thesis
    using record_store_result(1,2) [OF assms(1)]
    by (simp add: record_read_bucket_value_def record_bucket_index_def index_round_trip)
qed

lemma record_find_head:
  assumes "record_read_bucket_value t k = r" and "r \<noteq> record_empty" and "record_compare t r k"
  shows "record_find t k = Some (Some (record_data t r k))"
  using assms by (simp add: record_find_def record_find_loop.simps)

lemma record_store_succeeds:
  assumes "record_count t < max_uint32"
  obtains t' where "record_store t k v = Some (record_count t, t')"
  using assms by (simp add: record_store_def record_create_def new_records_def Let_def)

lemma record_unlink_most_recent:
  assumes "r_header t \<noteq> []"
    and "record_store t k v1 = Some (i1, t1)" and "length k + 4 + length v1 \<le> record_size t"
    and "record_store t1 k v2 = Some (i2, t2)"
  shows "\<exists>t3.
           record_read_bucket_value t2 k = i2 \<and> i2 \<noteq> record_empty \<and> record_compare t2 i2 k \<and>
           read_bytes (r_mem t2) (record_data t2 i2 k) (length v2) = v2 \<and>
           next_index t2 i2 k = i1 \<and> i1 \<noteq> record_empty \<and> record_compare t2 i1 k \<and>
           read_bytes (r_mem t2) (record_data t2 i1 k) (length v1) = v1 \<and>
           next_index t2 i1 k = record_read_bucket_value t k \<and>
           record_unlink t2 k = Some (True, t3) \<and> r_mem t3 = r_mem t2 \<and>
           record_read_bucket_value t3 k = i1 \<and>
           record_find t3 k = Some (Some (record_data t2 i1 k)) \<and>
           read_bytes (r_mem t3) (record_data t2 i1 k) (length v1) = v1"
proof -
  let ?t3 = "record_link t2 k i1"
  note s1 = record_store_result [OF assms(2)] and s2 = record_store_result [OF assms(4)]
  have h1: "r_header t1 \<noteq> []" using s1(2) assms(1) by simp
  have i2: "i2 = i1 + 1" using s1(1,3) s2(1) by simp
  have sz: "record_size t2 = record_size t" "record_size t1 = record_size t"
    using s1(4) s2(4) by simp_all
  have row1: "i1 * record_size t + (length k + 4 + length v1) \<le> i2 * record_size t1"
    using assms(3) by (simp add: i2 sz)
  have b2: "record_read_bucket_value t2 k = i2"
    by (rule record_store_bucket [OF assms(4) h1])
  have n2: "next_index t2 i2 k = i1"
    using record_store_row(3) [OF assms(4)] record_store_bucket [OF assms(2,1)] by simp
  have c1: "record_compare t2 i1 k"
    using record_store_row(1) [OF assms(2)]
      record_store_frame [OF assms(4), of "i1 * record_size t" "length k"] row1
    by (simp add: record_compare_def raw_data_def sz)
  have d1: "read_bytes (r_mem t2) (record_data t2 i1 k) (length v1) = v1"
    using record_store_row(2) [OF assms(2)]
      record_store_frame [OF assms(4), of "i1 * record_size t + (length k + 4)" "length v1"] row1
    by (simp add: record_data_def raw_data_def record_prefix_size_def sz)
  have n1: "next_index t2 i1 k = record_read_bucket_value t k"
    using record_store_row(3) [OF assms(2)]
      record_store_frame [OF assms(4), of "i1 * record_size t + length k" 4] row1
    by (simp add: next_index_def raw_data_def sz)
  have u: "record_unlink t2 k = Some (True, ?t3)"
    using b2 n2 record_store_row(1) [OF assms(4)] by (simp add: record_unlink_def)
  have idx: "record_bucket_index t2 k < length (r_header t2)"
    using h1 s2(2) by (simp add: record_bucket_index_def remainder_def)
  have b3: "record_read_bucket_value ?t3 k = i1"
    using idx s1(1,6)
    by (simp add: record_read_bucket_value_def record_link_def record_bucket_index_def
        index_round_trip)
  have e: "i1 \<noteq> record_empty" "i2 \<noteq> record_empty"
    using s1(1,6) s2(1,6) by (simp_all add: record_empty_def)
  have c3: "record_compare ?t3 i1 k"
    using c1 by (simp add: record_compare_def record_link_def raw_data_def)
  have f3: "record_find ?t3 k = Some (Some (record_data t2 i1 k))"
    using record_find_head [OF b3 e(1) c3]
    by (simp add: record_data_def raw_data_def record_link_def)
  show ?thesis
    using b2 n2 c1 d1 n1 u b3 f3 e record_store_row(1,2) [OF assms(4)]
    by (intro exI [of _ ?t3]) (simp add: record_link_def)
qed


text \<open>
  C9: in a created slab table and in a created record table, after two values are stored
  under one key (the first within the size of its slab or record), the bucket's chain
  starts with the row of the second value and continues with the row of the first, which
  is followed by the former first row of the bucket; \<open>unlink(key)\<close> returns true, makes
  the row of the first value the head of the bucket and changes no row; \<open>find(key)\<close> then
  returns the first value.
\<close>

theorem unlink_most_recent:
  assumes "header t \<noteq> []" and "0 < payload_size t"
    and "slab_store t k v1 n1 = Some (p1, t1)" and "length v1 \<le> n1"
    and "slab_store t1 k v2 n2 = Some (p2, t2)"
    and "r_header r \<noteq> []"
    and "record_store r k v1 = Some (i1, r1)" and "length k + 4 + length v1 \<le> record_size r"
    and "record_store r1 k v2 = Some (i2, r2)"
  shows "(\<exists>q1 q2 t3.
           read_bucket_value t2 k = q2 \<and> q2 \<noteq> slab_empty \<and> slab_compare (mem t2) q2 k \<and>
           q2 + prefix_size k = p2 \<and> read_bytes (mem t2) p2 (length v2) = v2 \<and>
           next_position (mem t2) q2 k = q1 \<and> q1 \<noteq> slab_empty \<and> slab_compare (mem t2) q1 k \<and>
           q1 + prefix_size k = p1 \<and> read_bytes (mem t2) p1 (length v1) = v1 \<and>
           next_position (mem t2) q1 k = read_bucket_value t k \<and>
           slab_unlink t2 k = Some (True, t3) \<and> mem t3 = mem t2 \<and>
           read_bucket_value t3 k = q1 \<and>
           slab_find t3 k = Some (Some p1) \<and> read_bytes (mem t3) p1 (length v1) = v1) \<and>
         (\<exists>r3.
           record_read_bucket_value r2 k = i2 \<and> i2 \<noteq> record_empty \<and> record_compare r2 i2 k \<and>
           read_bytes (r_mem r2) (record_data r2 i2 k) (length v2) = v2 \<and>
           next_index r2 i2 k = i1 \<and> i1 \<noteq> record_empty \<and> record_compare r2 i1 k \<and>
           read_bytes (r_mem r2) (record_data r2 i1 k) (length v1) = v1 \<and>
           next_index r2 i1 k = record_read_bucket_value r k \<and>
           record_unlink r2 k = Some (True, r3) \<and> r_mem r3 = r_mem r2 \<and>
           record_read_bucket_value r3 k = i1 \<and>
           record_find r3 k = Some (Some (record_data r2 i1 k)) \<and>
           read_bytes (r_mem r3) (record_data r2 i1 k) (length v1) = v1)"
  using slab_unlink_most_recent [OF assms(1-5)] record_unlink_most_recent [OF assms(6-9)]
  by (rule conjI)

theorem unlink_most_recent_witness:
  "\<exists>t1 t2 t3 r1 r2 r3.
     header table0 \<noteq> [] \<and> 0 < payload_size table0 \<and> length [170::byte] \<le> 1 \<and>
     slab_store table0 key1 [170] 1 = Some (18, t1) \<and>
     slab_store t1 key1 [187, 204] 2 = Some (29, t2) \<and>
     read_bucket_value t2 key1 = 19 \<and> next_position (mem t2) 19 key1 = 8 \<and>
     next_position (mem t2) 8 key1 = slab_empty \<and>
     read_bytes (mem t2) 29 2 = [187, 204] \<and> read_bytes (mem t2) 18 1 = [170] \<and>
     slab_unlink t2 key1 = Some (True, t3) \<and> read_bucket_value t3 key1 = 8 \<and>
     slab_find t3 key1 = Some (Some 18) \<and> read_bytes (mem t3) 18 1 = [170] \<and>
     r_header rtable0 \<noteq> [] \<and> length key1 + 4 + length [170::byte] \<le> record_size rtable0 \<and>
     record_store rtable0 key1 [170] = Some (0, r1) \<and>
     record_store r1 key1 [187, 204] = Some (1, r2) \<and>
     record_read_bucket_value r2 key1 = 1 \<and> next_index r2 1 key1 = 0 \<and>
     next_index r2 0 key1 = record_empty \<and>
     record_unlink r2 key1 = Some (True, r3) \<and> record_read_bucket_value r3 key1 = 0 \<and>
     record_find r3 key1 = Some (Some 6) \<and> read_bytes (r_mem r3) 6 1 = [170]"
proof -
  have h: "header table0 \<noteq> []" "0 < payload_size table0" "length [170::byte] \<le> 1"
    by (simp_all add: table0_def)
  obtain t1 where s1: "slab_store table0 key1 [170] 1 = Some (18, t1)"
    using store_succeeds [of table0 key1 1 "[170]"]
    by (auto simp: table0_def key1_def prefix_size_def max_size_t_def)
  have "payload_size t1 = 19"
    using store_result(3) [OF s1] by (simp add: table0_def key1_def prefix_size_def)
  then obtain t2 where s2: "slab_store t1 key1 [187, 204] 2 = Some (29, t2)"
    using store_succeeds [of t1 key1 2 "[187, 204]"]
    by (auto simp: key1_def prefix_size_def max_size_t_def)
  have g: "r_header rtable0 \<noteq> []" "length key1 + 4 + length [170::byte] \<le> record_size rtable0"
    by (simp_all add: rtable0_def key1_def)
  obtain r1 where e1: "record_store rtable0 key1 [170] = Some (0, r1)"
    using record_store_succeeds [of rtable0 key1 "[170]"]
    by (auto simp: rtable0_def max_uint32_def)
  have c1: "record_count r1 = 1" and z1: "record_size r1 = 8"
    using record_store_result(3,4) [OF e1] by (simp_all add: rtable0_def)
  obtain r2 where e2: "record_store r1 key1 [187, 204] = Some (1, r2)"
    using record_store_succeeds [of r1 key1 "[187, 204]"] c1
    by (auto simp: max_uint32_def)
  have z2: "record_size r2 = 8"
    using record_store_result(4) [OF e2] z1 by simp
  have b0: "read_bucket_value table0 key1 = slab_empty"
    "record_read_bucket_value rtable0 key1 = record_empty"
    by (simp_all add: read_bucket_value_def bucket_index_def record_read_bucket_value_def
        record_bucket_index_def remainder_def table0_def rtable0_def key1_def slab_empty_def
        record_empty_def max_uint32_def)
  have p: "prefix_size key1 = 10" "record_data r2 0 key1 = 6"
    by (simp_all add: prefix_size_def record_data_def raw_data_def record_prefix_size_def
        key1_def z2)
  note both = unlink_most_recent [OF h(1,2) s1 h(3) s2 g(1) e1 g(2) e2]
  from both [THEN conjunct1] obtain q1 q2 t3 where
    u: "read_bucket_value t2 key1 = q2" "q2 + prefix_size key1 = 29"
      "read_bytes (mem t2) 29 (length [187, 204 :: byte]) = [187, 204]"
      "next_position (mem t2) q2 key1 = q1" "q1 + prefix_size key1 = 18"
      "read_bytes (mem t2) 18 (length [170 :: byte]) = [170]"
      "next_position (mem t2) q1 key1 = read_bucket_value table0 key1"
      "slab_unlink t2 key1 = Some (True, t3)" "read_bucket_value t3 key1 = q1"
      "slab_find t3 key1 = Some (Some 18)"
      "read_bytes (mem t3) 18 (length [170 :: byte]) = [170]"
    by blast
  from both [THEN conjunct2] obtain r3 where
    w: "record_read_bucket_value r2 key1 = 1" "next_index r2 1 key1 = 0"
      "next_index r2 0 key1 = record_read_bucket_value rtable0 key1"
      "record_unlink r2 key1 = Some (True, r3)" "record_read_bucket_value r3 key1 = 0"
      "record_find r3 key1 = Some (Some (record_data r2 0 key1))"
      "read_bytes (r_mem r3) (record_data r2 0 key1) (length [170 :: byte]) = [170]"
    by blast
  have q: "q2 = 19" "q1 = 8"
    using u(2,5) p(1) by simp_all
  have slab: "read_bucket_value t2 key1 = 19 \<and> next_position (mem t2) 19 key1 = 8 \<and>
     next_position (mem t2) 8 key1 = slab_empty \<and>
     read_bytes (mem t2) 29 2 = [187, 204] \<and> read_bytes (mem t2) 18 1 = [170] \<and>
     slab_unlink t2 key1 = Some (True, t3) \<and> read_bucket_value t3 key1 = 8 \<and>
     slab_find t3 key1 = Some (Some 18) \<and> read_bytes (mem t3) 18 1 = [170]"
    using u b0(1) unfolding q by (simp add: numeral_2_eq_2)
  have rec: "record_read_bucket_value r2 key1 = 1 \<and> next_index r2 1 key1 = 0 \<and>
     next_index r2 0 key1 = record_empty \<and>
     record_unlink r2 key1 = Some (True, r3) \<and> record_read_bucket_value r3 key1 = 0 \<and>
     record_find r3 key1 = Some (Some 6) \<and> read_bytes (r_mem r3) 6 1 = [170]"
    using w b0(2) unfolding p(2) by simp
  show ?thesis
    using h s1 s2 g e1 e2 slab rec by blast
qed

section \<open>Properties of the transaction database\<close>


lemma read_bytes_append:
  "read_bytes m a (n1 + n2) = read_bytes m a n1 @ read_bytes m (a + n1) n2"
  unfolding read_bytes_def
  using upt_add_eq_append [of a "a + n1" n2] by (simp add: add.assoc)

lemma length_read_bytes [simp]: "length (read_bytes m a n) = n"
  by (simp add: read_bytes_def)














lemma read_bytes_sub:
  assumes "i + k \<le> n"
  shows "read_bytes m (a + i) k = take k (drop i (read_bytes m a n))"
  using assms by (intro nth_equalityI) (simp_all add: read_bytes_def add.assoc)

lemma read_bytes_byte:
  assumes "i < n"
  shows "m (a + i) = read_bytes m a n ! i"
  using assms by (simp add: read_bytes_def)

lemma table_with:
  assumes "length rec \<le> 1000"
  shows "slab_store tx_table0 hash1 rec (length rec) = Some (48, table_with rec)"
    and "read_bucket_value (table_with rec) hash1 = 8"
    and "slab_compare (mem (table_with rec)) 8 hash1"
    and "read_bytes (mem (table_with rec)) 48 (length rec) = rec"
    and "header (table_with rec) = [8]"
    and "payload_size (table_with rec) = 48 + length rec"
proof -
  obtain t where s: "slab_store tx_table0 hash1 rec (length rec) = Some (48, t)"
    using store_succeeds [of tx_table0 hash1 "length rec" rec] assms
    by (auto simp: tx_table0_def hash1_def prefix_size_def max_size_t_def)
  then have t: "t = table_with rec"
    by (simp add: table_with_def)
  show "slab_store tx_table0 hash1 rec (length rec) = Some (48, table_with rec)"
    using s t by simp
  have h: "header tx_table0 \<noteq> []" "payload_size tx_table0 = 8"
    by (simp_all add: tx_table0_def)
  show "read_bucket_value (table_with rec) hash1 = 8"
    using store_bucket [OF s h(1)] h(2) t by simp
  show "slab_compare (mem (table_with rec)) 8 hash1"
    using store_row(1) [OF s] h(2) t by simp
  show "read_bytes (mem (table_with rec)) 48 (length rec) = rec"
    using store_row(2) [OF s] t by simp
  show "header (table_with rec) = [8]"
    using store_result(2) [OF s] t
    by (simp add: tx_table0_def bucket_index_def remainder_def)
  show "payload_size (table_with rec) = 48 + length rec"
    using store_result(3) [OF s] t
    by (simp add: tx_table0_def hash1_def prefix_size_def)
qed

lemma table_with_bytes:
  assumes "length rec \<le> 1000"
  shows "i < length rec \<Longrightarrow> mem (table_with rec) (48 + i) = rec ! i"
    and "i + k \<le> length rec \<Longrightarrow>
           read_bytes (mem (table_with rec)) (48 + i) k = take k (drop i rec)"
  using read_bytes_byte [of i "length rec" "mem (table_with rec)" 48]
    read_bytes_sub [of i k "length rec" "mem (table_with rec)" 48] table_with(4) [OF assms]
  by simp_all

lemma table_with_find:
  assumes "length rec \<le> 1000"
  shows "slab_find (table_with rec) hash1 = Some (Some 48)"
  using find_head [OF table_with(2) [OF assms] _ table_with(3) [OF assms]]
  by (simp add: slab_empty_def prefix_size_def hash1_def)

lemma lengths:
  shows "length record1 = 36" and "length record2 = 21" and "length record3 = 21"
  by (simp_all add: record1_def record2_def record3_def)

lemma record1_fields:
  shows "read_metadata (mem (table_with record1)) 48 = (1, 0, state_confirmed)"
    and "read_size_little_endian (mem (table_with record1)) 55 = (2, 56)"
    and "skip_outputs 12 (mem (table_with record1)) 1 56 = 71"
    and "from_little_endian (read_bytes (mem (table_with record1)) 56 4) = not_spent"
    and "from_little_endian (read_bytes (mem (table_with record1)) 71 4) = 5"
    and "read_size_little_endian (mem (table_with record1)) 68 = (2, 69)"
proof -
  have n: "length record1 \<le> 1000" by (simp add: lengths)
  note b = table_with_bytes(1) [OF n, unfolded lengths]
    and sub = table_with_bytes(2) [OF n, unfolded lengths]
  show "read_metadata (mem (table_with record1)) 48 = (1, 0, state_confirmed)"
    using sub [of 0 4] sub [of 4 2] b [of 6]
    by (simp add: read_metadata_def record1_def state_confirmed_def)
  show c: "read_size_little_endian (mem (table_with record1)) 55 = (2, 56)"
    using b [of 7] by (simp add: read_size_little_endian_def record1_def)
  show s: "read_size_little_endian (mem (table_with record1)) 68 = (2, 69)"
    using b [of 20] by (simp add: read_size_little_endian_def record1_def)
  show "skip_outputs 12 (mem (table_with record1)) 1 56 = 71"
    using s by simp
  show "from_little_endian (read_bytes (mem (table_with record1)) 56 4) = not_spent"
    using sub [of 8 4] by (simp add: record1_def not_spent_def max_uint32_def)
  show "from_little_endian (read_bytes (mem (table_with record1)) 71 4) = 5"
    using sub [of 23 4] by (simp add: record1_def)
qed

lemma point_facts:
  shows "\<not> is_null point1" and "point_hash point1 = hash1" and "point_index point1 = 1"
    and "\<not> is_null point0" and "point_hash point0 = hash1" and "point_index point0 = 0"
    and "prefix_size hash1 = 40" and "is_null null_point"
  by (simp_all add: is_null_def point1_def point0_def null_point_def max_uint32_def
      prefix_size_def hash1_def)






text \<open>
  C10: \<open>spend\<close> of a null outpoint returns true, whatever the spender height, and leaves
  the whole database, records and cache, as it is.
\<close>

theorem spend_null:
  "is_null point \<Longrightarrow> spend lib db point spender_height = Some (True, db)"
  by (simp add: spend_def)

theorem spend_null_witness:
  "is_null null_point \<and> spend lib0 (db_with record1 genesis_cache) null_point 7 =
     Some (True, db_with record1 genesis_cache)"
  using spend_null [of null_point lib0 "db_with record1 genesis_cache" 7]
  by (simp add: point_facts)


lemma tx_get_example:
  assumes "length rec \<le> 1000" and "7 \<le> length rec"
  shows "tx_get (db_with rec c) hash1 =
     Some \<lparr>slab = Some 48, r_hash = hash1,
       r_height = from_little_endian (take 4 rec),
       r_position = from_little_endian (take 2 (drop 4 rec)),
       r_state = unat (rec ! 6)\<rparr>"
  using table_with_find [OF assms(1)] table_with_bytes(2) [OF assms(1), of 0 4]
    table_with_bytes(2) [OF assms(1), of 4 2] table_with_bytes(1) [OF assms(1), of 6] assms(2)
  by (simp add: tx_get_def db_with_def read_metadata_def)

lemma output50_example:
  assumes "rec = record2 \<or> rec = record3"
  shows "read_size_little_endian (mem (table_with rec)) 55 = (1, 56)"
    and "output_factory lib0 (mem (table_with rec)) 56 = (output50, 69)"
proof -
  have n: "length rec \<le> 1000" "length rec = 21"
    using assms by (auto simp: lengths)
  note b = table_with_bytes(1) [OF n(1), unfolded n(2)]
    and sub = table_with_bytes(2) [OF n(1), unfolded n(2)]
  show "read_size_little_endian (mem (table_with rec)) 55 = (1, 56)"
    using b [of 7] assms by (auto simp: read_size_little_endian_def record2_def record3_def)
  have "read_size_little_endian (mem (table_with rec)) 68 = (0, 69)"
    using b [of 20] assms by (auto simp: read_size_little_endian_def record2_def record3_def)
  moreover have "from_little_endian (read_bytes (mem (table_with rec)) 56 4) = not_spent"
    using sub [of 8 4] assms
    by (auto simp: record2_def record3_def not_spent_def max_uint32_def)
  moreover have "from_little_endian (read_bytes (mem (table_with rec)) 60 8) = 50"
    using sub [of 12 8] assms by (auto simp: record2_def record3_def)
  ultimately show "output_factory lib0 (mem (table_with rec)) 56 = (output50, 69)"
    by (simp add: lib0_def output50_def read_bytes_def)
qed

lemma get_output_indexed_example:
  "get_output lib0 (db_with record2 no_cache) point0 pv0 10 =
     Some (True, pv0\<lparr>pv_cache := output50, pv_confirmed := True\<rparr>)"
proof -
  have g: "tx_get (db_with record2 no_cache) hash1 =
      Some \<lparr>slab = Some 48, r_hash = hash1, r_height = 1, r_position = 65535,
        r_state = state_indexed\<rparr>"
    using tx_get_example [of record2 no_cache]
    by (simp add: lengths) (simp add: record2_def state_indexed_def)
  have o: "result_output lib0 (mem (table_with record2))
      \<lparr>slab = Some 48, r_hash = hash1, r_height = 1, r_position = 65535,
        r_state = state_indexed\<rparr> 0 = output50"
    using output50_example [of record2]
    by (simp add: result_output_def metadata_size_def)
  have v: "output_is_valid lib0 output50" "\<not> output_spent lib0 output50 10 True"
    "cache_populate lib0 no_cache point0 10 = None"
    by (simp_all add: lib0_def output50_def no_cache_def)
  show ?thesis
    using g o v
    by (simp add: get_output_def get_output_found_def confirmed_at_def Let_def point_facts
        db_with_def max_size_t_def pv0_def)
qed

text \<open>
  C2 (as stated): a query of an output of an indexed transaction at a finite fork height
  returns false.  For the indexed record \<open>record2\<close> and fork height 10 it returns true.
\<close>

theorem get_output_indexed_counterexample:
  "(\<exists>r. tx_get (db_with record2 no_cache) (point_hash point0) = Some r \<and>
      slab r \<noteq> None \<and> r_state r = state_indexed) \<and>
   10 \<noteq> max_size_t \<and>
   (\<exists>pv. get_output lib0 (db_with record2 no_cache) point0 pv0 10 = Some (True, pv))"
proof -
  have "tx_get (db_with record2 no_cache) hash1 =
      Some \<lparr>slab = Some 48, r_hash = hash1, r_height = 1, r_position = 65535,
        r_state = state_indexed\<rparr>"
    using tx_get_example [of record2 no_cache]
    by (simp add: lengths) (simp add: record2_def state_indexed_def)
  then show ?thesis
    using get_output_indexed_example by (simp add: point_facts max_size_t_def)
qed

text \<open>
  C2 (amended): for a transaction record in state indexed, the confirmation test of
  \<open>get_output\<close> holds exactly when the fork height is not the maximum (a fork query);
  the confirmation guard rejects an indexed record at no fork height, so that for a
  point that is not null, missed by the cache and with a nonzero height field, the query
  returns true exactly when the output at the index is valid, and then reports the
  point as confirmed.
\<close>

theorem get_output_indexed:
  assumes "\<not> is_null point" and "cache_populate lib (cache db) point fork_height = None"
    and "tx_get db (point_hash point) = Some result" and "slab result \<noteq> None"
    and "r_state result = state_indexed" and "r_height result \<noteq> 0"
  shows "(confirmed_at (r_state result) (r_height result) fork_height \<longleftrightarrow>
            fork_height \<noteq> max_size_t) \<and>
         (\<exists>pv. get_output lib db point prevout fork_height =
            Some (output_is_valid lib
                    (result_output lib (mem (lookup db)) result (point_index point)), pv) \<and>
            (output_is_valid lib
               (result_output lib (mem (lookup db)) result (point_index point)) \<longrightarrow>
             pv_confirmed pv))"
  using assms
  by (auto simp: get_output_def get_output_found_def confirmed_at_def Let_def
      state_indexed_def state_confirmed_def)

theorem get_output_indexed_witness:
  "\<not> is_null point0 \<and> cache_populate lib0 (cache (db_with record2 no_cache)) point0 10 = None \<and>
   tx_get (db_with record2 no_cache) (point_hash point0) =
     Some \<lparr>slab = Some 48, r_hash = hash1, r_height = 1, r_position = 65535,
       r_state = state_indexed\<rparr> \<and>
   confirmed_at state_indexed 1 10 \<and> \<not> confirmed_at state_indexed 1 max_size_t \<and>
   (\<exists>pv. get_output lib0 (db_with record2 no_cache) point0 pv0 10 = Some (True, pv) \<and>
      pv_confirmed pv) \<and>
   (\<exists>pv. get_output lib0 (db_with record2 no_cache) point0 pv0 max_size_t = Some (True, pv) \<and>
      pv_confirmed pv)"
proof -
  let ?r = "\<lparr>slab = Some 48, r_hash = hash1, r_height = 1, r_position = 65535,
       r_state = state_indexed\<rparr>"
  have g: "tx_get (db_with record2 no_cache) (point_hash point0) = Some ?r"
    using tx_get_example [of record2 no_cache]
    by (simp add: lengths point_facts) (simp add: record2_def state_indexed_def)
  have o: "result_output lib0 (mem (lookup (db_with record2 no_cache))) ?r (point_index point0) =
      output50"
    using output50_example [of record2]
    by (simp add: result_output_def metadata_size_def db_with_def point_facts)
  have v: "output_is_valid lib0 output50"
    "cache_populate lib0 (cache (db_with record2 no_cache)) point0 fh = None" for fh
    by (simp_all add: lib0_def output50_def no_cache_def db_with_def)
  have pre: "\<not> is_null point0" "slab ?r \<noteq> None" "r_state ?r = state_indexed" "r_height ?r \<noteq> 0"
    by (simp_all add: point_facts)
  note t = get_output_indexed [OF pre(1) v(2) g pre(2,3,4), of _ pv0, unfolded o]
  show ?thesis
    using t [of 10] t [of max_size_t] g v pre(1)
    by (simp add: max_size_t_def)
qed

lemma get_output_cached:
  assumes "\<not> is_null point" and "cache_populate lib (cache db) point fork_height = Some pv"
  shows "get_output lib db point prevout fork_height = Some (True, pv)"
  using assms by (simp add: get_output_def)

lemma get_output_genesis_miss:
  assumes "cache_populate lib (cache db) point fork_height = None"
    and "tx_get db (point_hash point) = Some result" and "r_height result = 0"
  shows "\<exists>pv. get_output lib db point prevout fork_height = Some (False, pv)"
  using assms by (simp add: get_output_def get_output_found_def Let_def)

text \<open>
  C3: the genesis outpoint (record stored at height 0, position 0, confirmed) whose
  entry is in the unspent-output cache: \<open>get_output\<close> returns true, from the cache, before
  it reads the record; with the entry out of the cache it returns false.
\<close>

theorem genesis_output_cached:
  "(\<exists>r. tx_get (db_with record3 genesis_cache) (point_hash point0) = Some r \<and>
      slab r \<noteq> None \<and> r_height r = 0 \<and> r_position r = 0 \<and> r_state r = state_confirmed) \<and>
   (\<exists>pv. get_output lib0 (db_with record3 genesis_cache) point0 pv0 100 = Some (True, pv)) \<and>
   (\<exists>pv. get_output lib0 (db_with record3 no_cache) point0 pv0 100 = Some (False, pv))"
proof -
  have g: "tx_get (db_with record3 c) hash1 =
      Some \<lparr>slab = Some 48, r_hash = hash1, r_height = 0, r_position = 0,
        r_state = state_confirmed\<rparr>" for c
    using tx_get_example [of record3 c]
    by (simp add: lengths) (simp add: record3_def state_confirmed_def)
  have hit: "cache_populate lib0 (cache (db_with record3 genesis_cache)) point0 100 =
      Some \<lparr>pv_spent = False, pv_coinbase_height = Some 0, pv_cache = output50,
        pv_confirmed = True\<rparr>"
    by (simp add: lib0_def genesis_cache_def db_with_def point_facts)
  have miss: "cache_populate lib0 (cache (db_with record3 no_cache)) point0 100 = None"
    by (simp add: lib0_def no_cache_def db_with_def)
  show ?thesis
    using g [of genesis_cache] get_output_cached [OF point_facts(4) hit, of pv0]
      get_output_genesis_miss [OF miss, of _ pv0] g [of no_cache]
    by (simp add: point_facts)
qed

lemma verify_push_tx_result:
  assumes "tx_get db (tx_hash tx) = Some result"
  shows "verify_push_tx lib db tx =
     Some (if slab result \<noteq> None \<and> \<not> is_spent lib (mem (lookup db)) result max_size_t
           then unspent_duplicate else success)"
  using assms by (simp add: verify_push_tx_def)

text \<open>
  C4: \<open>push(tx, forks)\<close> returns \<open>unspent_duplicate\<close> exactly when \<open>get\<close> finds a record
  with the hash of the transaction and \<open>is_spent\<close> is false for it (some output is not
  spent, or the record is not confirmed); and then the store, its flush lock included,
  is as before the call.
\<close>

theorem push_unspent_duplicate:
  "((\<exists>db'. push_tx lib fs db tx forks = Some (unspent_duplicate, db')) \<longleftrightarrow>
      (\<exists>result. tx_get (transactions db) (tx_hash tx) = Some result \<and> slab result \<noteq> None \<and>
         \<not> is_spent lib (mem (lookup (transactions db))) result max_size_t)) \<and>
   (\<forall>db'. push_tx lib fs db tx forks = Some (unspent_duplicate, db') \<longrightarrow> db' = db)"
proof (cases "tx_get (transactions db) (tx_hash tx)")
  case None
  then show ?thesis
    by (simp add: push_tx_def verify_push_tx_def)
next
  case (Some result)
  show ?thesis
    using verify_push_tx_result [OF Some, of lib] Some
    by (auto simp: push_tx_def Let_def split: option.splits prod.splits if_splits)
qed

theorem push_unspent_duplicate_witness:
  "tx_get (transactions \<lparr>transactions = db_with record1 no_cache, flush_lock = False\<rparr>)
     (tx_hash tx1) =
     Some \<lparr>slab = Some 48, r_hash = hash1, r_height = 1, r_position = 0,
       r_state = state_confirmed\<rparr> \<and>
   \<not> is_spent lib0 (mem (lookup (db_with record1 no_cache)))
       \<lparr>slab = Some 48, r_hash = hash1, r_height = 1, r_position = 0,
         r_state = state_confirmed\<rparr> max_size_t \<and>
   push_tx lib0 fs_ok \<lparr>transactions = db_with record1 no_cache, flush_lock = False\<rparr> tx1 1 =
     Some (unspent_duplicate, \<lparr>transactions = db_with record1 no_cache, flush_lock = False\<rparr>)"
proof -
  let ?r = "\<lparr>slab = Some 48, r_hash = hash1, r_height = 1, r_position = 0,
       r_state = state_confirmed\<rparr>"
  let ?db = "\<lparr>transactions = db_with record1 no_cache, flush_lock = False\<rparr>"
  have g: "tx_get (transactions ?db) (tx_hash tx1) = Some ?r"
    using tx_get_example [of record1 no_cache]
    by (simp add: lengths tx1_def) (simp add: record1_def state_confirmed_def)
  have f: "fst (output_factory lib0 (mem (table_with record1)) 56) =
      \<lparr>out_spender_height = not_spent, out_value = from_little_endian
         (read_bytes (mem (table_with record1)) 60 8),
        out_script = read_bytes (mem (table_with record1)) 69 2\<rparr>"
    using record1_fields(4,6) by (simp add: lib0_def)
  have u: "\<not> is_spent lib0 (mem (lookup (db_with record1 no_cache))) ?r max_size_t"
    using record1_fields(2) f
    by (simp add: is_spent_def Let_def db_with_def metadata_size_def numeral_2_eq_2
        lib0_def split: prod.splits)
  from push_unspent_duplicate [of lib0 fs_ok ?db tx1 1] g u
  have "\<exists>db'. push_tx lib0 fs_ok ?db tx1 1 = Some (unspent_duplicate, db')"
    "\<forall>db'. push_tx lib0 fs_ok ?db tx1 1 = Some (unspent_duplicate, db') \<longrightarrow> db' = ?db"
    by simp_all
  then have "push_tx lib0 fs_ok ?db tx1 1 = Some (unspent_duplicate, ?db)"
    by blast
  then show ?thesis
    using g u by simp
qed


end
